theory Spec2Isabelle
  imports Complex_Main
begin

section \<open>Platform functions\<close>

text \<open>
  JavaScript numbers are modelled as reals. The library functions the program calls but
  does not define are parameters of the model: \<open>Math.sin\<close>, \<open>Math.cos\<close> and \<open>Math.sqrt\<close> as
  functions on numbers, the constant \<open>Math.PI\<close>, and \<open>Math.random\<close> as the sequence of
  values its successive calls return. \<open>Math.floor\<close>, \<open>Math.ceil\<close> and \<open>Math.min\<close> are
  exact and are the functions of the same names on the reals.
\<close>

record platform =
  Math_sin :: "real \<Rightarrow> real"
  Math_cos :: "real \<Rightarrow> real"
  Math_sqrt :: "real \<Rightarrow> real"
  Math_PI :: real
  Math_random :: "nat \<Rightarrow> real"

section \<open>SeededRandom (utils.js)\<close>

record SeededRandom =
  seed :: real
  originalSeed :: real

definition new_SeededRandom :: "real \<Rightarrow> SeededRandom" where
  "new_SeededRandom s = \<lparr>seed = s, originalSeed = s\<rparr>"

definition rng_reset :: "SeededRandom \<Rightarrow> SeededRandom" where
  "rng_reset r = r\<lparr>seed := originalSeed r\<rparr>"

definition rng_setSeed :: "real \<Rightarrow> SeededRandom \<Rightarrow> SeededRandom" where
  "rng_setSeed newSeed r = r\<lparr>seed := newSeed, originalSeed := newSeed\<rparr>"

text \<open>\<open>next()\<close>: \<open>x = Math.sin(this.seed++) * 10000; return x - Math.floor(x)\<close>.\<close>

definition rng_next :: "platform \<Rightarrow> SeededRandom \<Rightarrow> real \<times> SeededRandom" where
  "rng_next P r =
     (let x = Math_sin P (seed r) * 10000
      in (x - of_int \<lfloor>x\<rfloor>, r\<lparr>seed := seed r + 1\<rparr>))"

definition rng_range :: "platform \<Rightarrow> real \<Rightarrow> real \<Rightarrow> SeededRandom \<Rightarrow> real \<times> SeededRandom" where
  "rng_range P lo hi r = (let (u, r') = rng_next P r in (lo + u * (hi - lo), r'))"

definition rng_int :: "platform \<Rightarrow> real \<Rightarrow> real \<Rightarrow> SeededRandom \<Rightarrow> int \<times> SeededRandom" where
  "rng_int P lo hi r = (let (v, r') = rng_range P lo (hi + 1) r in (\<lfloor>v\<rfloor>, r'))"

text \<open>
  Reading \<open>array[i]\<close>: the element when \<open>i\<close> is an index of the array, \<open>undefined\<close>
  (here \<open>None\<close>) otherwise. No exception is raised.
\<close>

definition array_get :: "'a list \<Rightarrow> int \<Rightarrow> 'a option" where
  "array_get xs i = (if 0 \<le> i \<and> i < int (length xs) then Some (xs ! nat i) else None)"

definition rng_choice :: "platform \<Rightarrow> 'a list \<Rightarrow> SeededRandom \<Rightarrow> 'a option \<times> SeededRandom" where
  "rng_choice P array r =
     (let (i, r') = rng_int P 0 (real (length array) - 1) r in (array_get array i, r'))"

text \<open>The first \<open>n\<close> outputs of \<open>next()\<close>, with the generator they leave behind.\<close>

fun rng_draws :: "platform \<Rightarrow> nat \<Rightarrow> SeededRandom \<Rightarrow> real list \<times> SeededRandom" where
  "rng_draws P 0 r = ([], r)"
| "rng_draws P (Suc n) r =
     (let (u, r1) = rng_next P r; (us, r2) = rng_draws P n r1 in (u # us, r2))"


section \<open>Failures\<close>

text \<open>
  \<open>TypeError\<close> is the exception JavaScript raises on reading a property of \<open>undefined\<close>;
  a call that raises it is abandoned and the model keeps no state for it.
  \<open>UnknownScenario\<close> is the factory's failure: it logs \<open>Unknown scenario: ...\<close> with
  \<open>console.error\<close> and returns \<open>null\<close>.
\<close>

datatype failure = TypeError | UnknownScenario

definition and_then :: "failure + 'a \<Rightarrow> ('a \<Rightarrow> failure + 'b) \<Rightarrow> failure + 'b" where
  "and_then r f = (case r of Inl e \<Rightarrow> Inl e | Inr a \<Rightarrow> f a)"

section \<open>Loops\<close>

text \<open>
  \<open>for (let i = 0; i < bound; i++) body\<close> with a numeric bound that need not be an
  integer: the body runs for \<open>i = 0, 1, ...\<close> as long as \<open>i < bound\<close>.
  \<open>for_loop\<close> is the loop whose body cannot raise, \<open>for_loop_try\<close> the loop whose body can.
\<close>

function for_loop :: "nat \<Rightarrow> real \<Rightarrow> (nat \<Rightarrow> 's \<Rightarrow> 's) \<Rightarrow> 's \<Rightarrow> 's" where
  "for_loop i bound body s =
     (if real i < bound then for_loop (Suc i) bound body (body i s) else s)"
  by pat_completeness auto
termination
  by (relation "measure (\<lambda>(i, bound, body, s). nat \<lceil>bound\<rceil> - i)") (auto, linarith)

function for_loop_try ::
  "nat \<Rightarrow> real \<Rightarrow> (nat \<Rightarrow> 's \<Rightarrow> failure + 's) \<Rightarrow> 's \<Rightarrow> failure + 's" where
  "for_loop_try i bound body s =
     (if real i < bound
      then (case body i s of Inl e \<Rightarrow> Inl e | Inr s' \<Rightarrow> for_loop_try (Suc i) bound body s')
      else Inr s)"
  by pat_completeness auto
termination
  by (relation "measure (\<lambda>(i, bound, body, s). nat \<lceil>bound\<rceil> - i)") (auto, linarith)

declare for_loop.simps [simp del]
declare for_loop_try.simps [simp del]

text \<open>
  A bound computed from a property the object does not have is \<open>undefined\<close> or \<open>NaN\<close>
  (here \<open>None\<close>); \<open>i < undefined\<close> and \<open>i < NaN\<close> are false, so the loop does not run.
  Otherwise the body is given the bound's value.
\<close>

definition for_upto :: "real option \<Rightarrow> (real \<Rightarrow> nat \<Rightarrow> 's \<Rightarrow> 's) \<Rightarrow> 's \<Rightarrow> 's" where
  "for_upto bound body s = (case bound of None \<Rightarrow> s | Some b \<Rightarrow> for_loop 0 b (body b) s)"

text \<open>\<open>x < y\<close> where \<open>y\<close> may be \<open>undefined\<close>.\<close>

definition js_less :: "real \<Rightarrow> real option \<Rightarrow> bool" where
  "js_less x y = (case y of None \<Rightarrow> False | Some v \<Rightarrow> x < v)"

definition for_upto_try ::
  "real option \<Rightarrow> (nat \<Rightarrow> 's \<Rightarrow> failure + 's) \<Rightarrow> 's \<Rightarrow> failure + 's" where
  "for_upto_try bound body s =
     (case bound of None \<Rightarrow> Inr s | Some b \<Rightarrow> for_loop_try 0 b body s)"

section \<open>Template strings\<close>

definition digit_char :: "nat \<Rightarrow> char" where
  "digit_char d = ''0123456789'' ! (d mod 10)"

fun string_of_nat :: "nat \<Rightarrow> string" where
  "string_of_nat n =
     (if n < 10 then [digit_char n] else string_of_nat (n div 10) @ [digit_char n])"

declare string_of_nat.simps [simp del]

section \<open>Node and Packet (utils.js)\<close>

record Node =
  n_id :: string
  n_type :: string
  n_x :: real
  n_y :: real
  n_radius :: real
  n_pulsePhase :: real
  n_connections :: "string list"

text \<open>
  \<open>new Node(id, type, x, y, radius)\<close>. \<open>k\<close> says which call of \<open>Math.random\<close> this
  constructor makes, counted from the start of the enclosing \<open>initialize()\<close>.
\<close>

definition new_Node :: "platform \<Rightarrow> nat \<Rightarrow> string \<Rightarrow> string \<Rightarrow> real \<Rightarrow> real \<Rightarrow> real \<Rightarrow> Node" where
  "new_Node P k ident type x y radius =
     \<lparr>n_id = ident, n_type = type, n_x = x, n_y = y, n_radius = radius,
      n_pulsePhase = Math_random P k * Math_PI P * 2, n_connections = []\<rparr>"

record TrailPoint =
  t_x :: real
  t_y :: real
  t_alpha :: real

text \<open>
  A packet's \<open>source\<close> is a node: the constructor reads \<open>source.x\<close> and raises on
  \<open>undefined\<close>. Its \<open>target\<close> is stored unread, so it may be \<open>undefined\<close>.
\<close>

record Packet =
  p_id :: nat
  p_source :: Node
  p_target :: "Node option"
  p_type :: string
  p_speed :: real
  p_progress :: real
  p_x :: real
  p_y :: real
  p_active :: bool
  p_trail :: "TrailPoint list"

definition new_Packet ::
  "nat \<Rightarrow> Node option \<Rightarrow> Node option \<Rightarrow> string \<Rightarrow> real \<Rightarrow> failure + Packet" where
  "new_Packet ident source target type speed =
     (case source of
        None \<Rightarrow> Inl TypeError
      | Some src \<Rightarrow>
          Inr \<lparr>p_id = ident, p_source = src, p_target = target, p_type = type,
               p_speed = speed, p_progress = 0, p_x = n_x src, p_y = n_y src,
               p_active = True, p_trail = []\<rparr>)"

definition lerp :: "real \<Rightarrow> real \<Rightarrow> real \<Rightarrow> real" where
  "lerp start end' t = start + (end' - start) * t"

text \<open>
  \<open>Packet.update()\<close>: the returned flag is the method's result, the packet is the object
  after the call.
\<close>

definition Packet_update :: "Packet \<Rightarrow> failure + (bool \<times> Packet)" where
  "Packet_update p =
     (if \<not> p_active p then Inr (False, p)
      else
        let p1 = p\<lparr>p_progress := p_progress p + p_speed p * 0.01\<rparr>
        in if p_progress p1 \<ge> 1 then Inr (False, p1\<lparr>p_active := False\<rparr>)
           else
             (case p_target p1 of
                None \<Rightarrow> Inl TypeError
              | Some tgt \<Rightarrow>
                  let t = p_progress p1;
                      ease = (if t < 0.5 then 2 * t * t else - 1 + (4 - 2 * t) * t);
                      x = lerp (n_x (p_source p1)) (n_x tgt) ease;
                      y = lerp (n_y (p_source p1)) (n_y tgt) ease;
                      trail = p_trail p1 @ [\<lparr>t_x = x, t_y = y, t_alpha = 1\<rparr>];
                      trail' = (if length trail > 10 then tl trail else trail)
                  in Inr (True, p1\<lparr>p_x := x, p_y := y, p_trail := trail'\<rparr>)))"

section \<open>Scenarios and the simulation state (attack simulation engine)\<close>

text \<open>
  The properties of a scenario object that the simulation classes read. A property the
  object does not have reads as \<open>undefined\<close>, here \<open>None\<close>.
\<close>

record Scenario =
  sc_attackers :: "real option"
  sc_legitimateClients :: "real option"
  sc_nodes :: "real option"
  sc_packetsPerSecond :: "real option"
  sc_blockRate :: "real option"

definition SCENARIOS :: "(string \<times> Scenario) list" where
  "SCENARIOS =
     [(''ddos'', \<lparr>sc_attackers = Some 30, sc_legitimateClients = None, sc_nodes = None,
                  sc_packetsPerSecond = Some 100, sc_blockRate = None\<rparr>),
      (''mitm'', \<lparr>sc_attackers = Some 1, sc_legitimateClients = None, sc_nodes = None,
                  sc_packetsPerSecond = Some 20, sc_blockRate = None\<rparr>),
      (''firewall'', \<lparr>sc_attackers = Some 10, sc_legitimateClients = Some 5, sc_nodes = None,
                      sc_packetsPerSecond = Some 50, sc_blockRate = Some 0.8\<rparr>),
      (''arpSpoof'', \<lparr>sc_attackers = None, sc_legitimateClients = None, sc_nodes = Some 8,
                      sc_packetsPerSecond = Some 30, sc_blockRate = None\<rparr>)]"

text \<open>
  \<open>SCENARIOS\<close> is an object literal, so \<open>SCENARIOS[name]\<close> also finds the properties
  every object inherits from \<open>Object.prototype\<close>. Their values are functions (and, for
  \<open>__proto__\<close>, the prototype object itself): truthy, and with none of the properties of
  a scenario.
\<close>

definition Object_prototype_properties :: "string list" where
  "Object_prototype_properties =
     [''constructor'', ''hasOwnProperty'', ''isPrototypeOf'', ''propertyIsEnumerable'',
      ''toLocaleString'', ''toString'', ''valueOf'', ''__proto__'',
      ''__defineGetter__'', ''__defineSetter__'', ''__lookupGetter__'', ''__lookupSetter__'']"

definition inherited_value :: Scenario where
  "inherited_value =
     \<lparr>sc_attackers = None, sc_legitimateClients = None, sc_nodes = None,
      sc_packetsPerSecond = None, sc_blockRate = None\<rparr>"

definition SCENARIOS_get :: "string \<Rightarrow> Scenario option" where
  "SCENARIOS_get name =
     (case map_of SCENARIOS name of
        Some sc \<Rightarrow> Some sc
      | None \<Rightarrow> if name \<in> set Object_prototype_properties then Some inherited_value else None)"

record Metrics =
  packetsSent :: nat
  packetsReceived :: nat
  packetsDropped :: nat
  packetsBlocked :: nat
  serverLoad :: real
  latency :: real

datatype Variant = DDoSAttack | MITMAttack | FirewallAttack | ARPSpoofAttack

text \<open>
  A callback handed to \<open>setTimeout\<close>, with the values its closure captures.
  \<open>Relay attacker target speed\<close> is
  \<open>if (attacker && target) this.createPacket(attacker, target, 'attack', speed)\<close>
  (MITM and ARP spoofing); \<open>Decide isAttack packet packetType firewall server\<close> is the
  firewall's decision. The captured packet object is named by its id, which
  \<open>createPacket\<close> takes from \<open>packetIdCounter\<close>.
\<close>

datatype Timer =
  Relay "Node option" "Node option" real
| Decide bool nat string "Node option" "Node option"

text \<open>
  The fields of \<open>AttackSimulation\<close>, the class of the instance (\<open>variant\<close>), and the
  callbacks the instance has scheduled that have not run yet, oldest first (\<open>timers\<close>).
  The generator is the one handed to the constructor.
\<close>

record Simulation =
  variant :: Variant
  scenario :: Scenario
  rng :: SeededRandom
  canvasWidth :: real
  canvasHeight :: real
  nodes :: "Node list"
  packets :: "Packet list"
  metrics :: Metrics
  time :: real
  packetIdCounter :: nat
  timers :: "Timer list"

definition new_AttackSimulation ::
  "Variant \<Rightarrow> Scenario \<Rightarrow> SeededRandom \<Rightarrow> real \<Rightarrow> real \<Rightarrow> Simulation" where
  "new_AttackSimulation v sc r w h =
     \<lparr>variant = v, scenario = sc, rng = r, canvasWidth = w, canvasHeight = h,
      nodes = [], packets = [],
      metrics = \<lparr>packetsSent = 0, packetsReceived = 0, packetsDropped = 0,
                 packetsBlocked = 0, serverLoad = 0, latency = 0\<rparr>,
      time = 0, packetIdCounter = 0, timers = []\<rparr>"

definition createPacket ::
  "Node option \<Rightarrow> Node option \<Rightarrow> string \<Rightarrow> real \<Rightarrow> Simulation \<Rightarrow> failure + (Packet \<times> Simulation)" where
  "createPacket source target type speed s =
     (case new_Packet (packetIdCounter s) source target type speed of
        Inl e \<Rightarrow> Inl e
      | Inr packet \<Rightarrow>
          Inr (packet,
               s\<lparr>packetIdCounter := packetIdCounter s + 1,
                 packets := packets s @ [packet],
                 metrics := (metrics s)\<lparr>packetsSent := packetsSent (metrics s) + 1\<rparr>\<rparr>))"

subsection \<open>initialize()\<close>

definition push_node :: "Node \<Rightarrow> Simulation \<Rightarrow> Simulation" where
  "push_node n s = s\<lparr>nodes := nodes s @ [n]\<rparr>"

definition DDoS_initialize :: "platform \<Rightarrow> Simulation \<Rightarrow> Simulation" where
  "DDoS_initialize P s =
     (let serverNode = new_Node P 0 ''server'' ''server''
                         (canvasWidth s / 2) (canvasHeight s / 2) 40;
          s1 = push_node serverNode s;
          attackerCount = sc_attackers (scenario s1);
          radius = min (canvasWidth s1) (canvasHeight s1) * 0.35
      in for_upto attackerCount
           (\<lambda>count i s'.
              let angle = (real i / count) * Math_PI P * 2;
                  x = canvasWidth s' / 2 + Math_cos P angle * radius;
                  y = canvasHeight s' / 2 + Math_sin P angle * radius;
                  attacker = (new_Node P (Suc i) (''attacker-'' @ string_of_nat i)
                                ''attacker'' x y 15)\<lparr>n_connections := [''server'']\<rparr>
              in push_node attacker s')
           s1)"

definition MITM_initialize :: "platform \<Rightarrow> Simulation \<Rightarrow> Simulation" where
  "MITM_initialize P s =
     (let client1 = new_Node P 0 ''client1'' ''client''
                      (canvasWidth s * 0.25) (canvasHeight s / 2) 25;
          client2 = new_Node P 1 ''client2'' ''client''
                      (canvasWidth s * 0.75) (canvasHeight s / 2) 25;
          attacker = new_Node P 2 ''attacker'' ''attacker''
                       (canvasWidth s / 2) (canvasHeight s / 2) 30;
          client1' = client1\<lparr>n_connections := [''attacker'']\<rparr>;
          attacker' = attacker\<lparr>n_connections := [''client1'', ''client2'']\<rparr>;
          client2' = client2\<lparr>n_connections := [''attacker'']\<rparr>
      in s\<lparr>nodes := nodes s @ [client1', attacker', client2']\<rparr>)"

definition opt_add :: "real option \<Rightarrow> real option \<Rightarrow> real option" where
  "opt_add a b = (case (a, b) of (Some x, Some y) \<Rightarrow> Some (x + y) | _ \<Rightarrow> None)"

definition Firewall_initialize :: "platform \<Rightarrow> Simulation \<Rightarrow> Simulation" where
  "Firewall_initialize P s =
     (let server = new_Node P 0 ''server'' ''server''
                     (canvasWidth s * 0.75) (canvasHeight s / 2) 35;
          firewall = (new_Node P 1 ''firewall'' ''firewall''
                        (canvasWidth s / 2) (canvasHeight s / 2) 30)
                       \<lparr>n_connections := [''server'']\<rparr>;
          s1 = s\<lparr>nodes := nodes s @ [server, firewall]\<rparr>;
          totalNodes = opt_add (sc_attackers (scenario s1)) (sc_legitimateClients (scenario s1))
      in for_upto totalNodes
           (\<lambda>total i s'.
              let isAttacker = js_less (real i) (sc_attackers (scenario s'));
                  (d, r') = rng_range P (- 50) 50 (rng s');
                  x = canvasWidth s' * 0.15 + d;
                  y = (real i / total) * canvasHeight s' * 0.8 + canvasHeight s' * 0.1;
                  node = (new_Node P (i + 2) (''node-'' @ string_of_nat i)
                            (if isAttacker then ''attacker'' else ''client'') x y 15)
                           \<lparr>n_connections := [''firewall'']\<rparr>
              in push_node node (s'\<lparr>rng := r'\<rparr>))
           s1)"


definition ARPSpoof_initialize :: "platform \<Rightarrow> Simulation \<Rightarrow> Simulation" where
  "ARPSpoof_initialize P s =
     (let s1 = for_upto (sc_nodes (scenario s))
                 (\<lambda>count i s'.
                    let gridSize = \<lceil>Math_sqrt P count\<rceil>;
                        spacing = min (canvasWidth s') (canvasHeight s') * 0.7 / of_int gridSize;
                        offsetX = (canvasWidth s' - spacing * of_int gridSize) / 2;
                        offsetY = (canvasHeight s' - spacing * of_int gridSize) / 2;
                        row = \<lfloor>real i / of_int gridSize\<rfloor>;
                        col = int i mod gridSize;
                        x = offsetX + of_int col * spacing + spacing / 2;
                        y = offsetY + of_int row * spacing + spacing / 2
                    in push_node (new_Node P i (''node-'' @ string_of_nat i) ''client'' x y 20) s')
                 s;
          attacker = new_Node P (length (nodes s1)) ''attacker'' ''attacker''
                       (canvasWidth s1 / 2) (canvasHeight s1 / 2) 25;
          s2 = push_node attacker s1
      in s2\<lparr>nodes :=
              map (\<lambda>node. if n_type node \<noteq> ''attacker''
                           then node\<lparr>n_connections := n_connections node @ [''attacker'']\<rparr>
                           else node)
                (nodes s2)\<rparr>)"

definition initialize :: "platform \<Rightarrow> Simulation \<Rightarrow> Simulation" where
  "initialize P s =
     (case variant s of
        DDoSAttack \<Rightarrow> DDoS_initialize P s
      | MITMAttack \<Rightarrow> MITM_initialize P s
      | FirewallAttack \<Rightarrow> Firewall_initialize P s
      | ARPSpoofAttack \<Rightarrow> ARPSpoof_initialize P s)"

subsection \<open>SimulationFactory.create\<close>

text \<open>The \<open>switch\<close> of the factory, with its \<open>default\<close> branch.\<close>

definition class_of :: "string \<Rightarrow> Variant" where
  "class_of scenarioName =
     (if scenarioName = ''ddos'' then DDoSAttack
      else if scenarioName = ''mitm'' then MITMAttack
      else if scenarioName = ''firewall'' then FirewallAttack
      else if scenarioName = ''arpSpoof'' then ARPSpoofAttack
      else DDoSAttack)"

definition SimulationFactory_create ::
  "platform \<Rightarrow> string \<Rightarrow> SeededRandom \<Rightarrow> real \<Rightarrow> real \<Rightarrow> failure + Simulation" where
  "SimulationFactory_create P scenarioName r canvasW canvasH =
     (case SCENARIOS_get scenarioName of
        None \<Rightarrow> Inl UnknownScenario
      | Some sc \<Rightarrow>
          Inr (initialize P (new_AttackSimulation (class_of scenarioName) sc r canvasW canvasH)))"

subsection \<open>generatePackets(intensity)\<close>

definition find_node :: "string \<Rightarrow> Simulation \<Rightarrow> Node option" where
  "find_node ident s = find (\<lambda>n. n_id n = ident) (nodes s)"

definition nodes_of_type :: "string \<Rightarrow> Simulation \<Rightarrow> Node list" where
  "nodes_of_type type s = filter (\<lambda>n. n_type n = type) (nodes s)"

text \<open>Calls on \<open>this.rng\<close>: the result, and the simulation with the generator advanced.\<close>

definition draw_next :: "platform \<Rightarrow> Simulation \<Rightarrow> real \<times> Simulation" where
  "draw_next P s = (let (u, r') = rng_next P (rng s) in (u, s\<lparr>rng := r'\<rparr>))"

definition draw_range :: "platform \<Rightarrow> real \<Rightarrow> real \<Rightarrow> Simulation \<Rightarrow> real \<times> Simulation" where
  "draw_range P lo hi s = (let (v, r') = rng_range P lo hi (rng s) in (v, s\<lparr>rng := r'\<rparr>))"

definition draw_choice :: "platform \<Rightarrow> 'a list \<Rightarrow> Simulation \<Rightarrow> 'a option \<times> Simulation" where
  "draw_choice P array s = (let (x, r') = rng_choice P array (rng s) in (x, s\<lparr>rng := r'\<rparr>))"

text \<open>
  \<open>(intensity / 100) * this.scenario.packetsPerSecond * 0.016\<close>; \<open>NaN\<close> (here \<open>None\<close>)
  when the scenario has no \<open>packetsPerSecond\<close>.
\<close>

definition packetsThisFrame :: "real \<Rightarrow> Simulation \<Rightarrow> real option" where
  "packetsThisFrame intensity s =
     map_option (\<lambda>pps. (intensity / 100) * pps * 0.016) (sc_packetsPerSecond (scenario s))"

definition setTimeout :: "Timer \<Rightarrow> Simulation \<Rightarrow> Simulation" where
  "setTimeout t s = s\<lparr>timers := timers s @ [t]\<rparr>"

definition DDoS_slot :: "platform \<Rightarrow> Node option \<Rightarrow> Node list \<Rightarrow> Simulation \<Rightarrow> failure + Simulation" where
  "DDoS_slot P serverNode attackers s =
     (let (u, s1) = draw_next P s
      in if u < 0.5
         then (let (attacker, s2) = draw_choice P attackers s1
               in and_then (createPacket attacker serverNode ''attack'' 2 s2)
                    (\<lambda>(packet, s3). Inr s3))
         else Inr s1)"

definition DDoS_generatePackets :: "platform \<Rightarrow> real \<Rightarrow> Simulation \<Rightarrow> failure + Simulation" where
  "DDoS_generatePackets P intensity s =
     (let serverNode = find_node ''server'' s;
          attackers = nodes_of_type ''attacker'' s
      in for_upto_try (packetsThisFrame intensity s)
           (\<lambda>i. DDoS_slot P serverNode attackers) s)"

definition MITM_slot ::
  "platform \<Rightarrow> Node option \<Rightarrow> Node option \<Rightarrow> Node option \<Rightarrow> Simulation \<Rightarrow> failure + Simulation" where
  "MITM_slot P client1 client2 attacker s =
     (let (u, s1) = draw_next P s
      in if u < 0.5
         then (let (v, s2) = draw_next P s1
               in if v < 0.5
                  then and_then (createPacket client1 attacker ''normal'' 1.5 s2)
                         (\<lambda>(packet, s3). Inr (setTimeout (Relay attacker client2 1.5) s3))
                  else and_then (createPacket client2 attacker ''normal'' 1.5 s2)
                         (\<lambda>(packet, s3). Inr (setTimeout (Relay attacker client1 1.5) s3)))
         else Inr s1)"

definition MITM_generatePackets :: "platform \<Rightarrow> real \<Rightarrow> Simulation \<Rightarrow> failure + Simulation" where
  "MITM_generatePackets P intensity s =
     (let client1 = find_node ''client1'' s;
          client2 = find_node ''client2'' s;
          attacker = find_node ''attacker'' s
      in for_upto_try (packetsThisFrame intensity s)
           (\<lambda>i. MITM_slot P client1 client2 attacker) s)"

definition Firewall_slot ::
  "platform \<Rightarrow> Node option \<Rightarrow> Node option \<Rightarrow> Node list \<Rightarrow> Simulation \<Rightarrow> failure + Simulation" where
  "Firewall_slot P firewall server clients s =
     (let (u, s1) = draw_next P s
      in if u < 0.5
         then (let (client, s2) = draw_choice P clients s1
               in case client of
                    None \<Rightarrow> Inl TypeError
                  | Some c \<Rightarrow>
                      let isAttack = (n_type c = ''attacker'');
                          packetType = (if isAttack then ''attack'' else ''normal'')
                      in and_then (createPacket (Some c) firewall packetType 1.5 s2)
                           (\<lambda>(packet, s3).
                              Inr (setTimeout
                                     (Decide isAttack (p_id packet) packetType firewall server) s3)))
         else Inr s1)"

definition Firewall_generatePackets :: "platform \<Rightarrow> real \<Rightarrow> Simulation \<Rightarrow> failure + Simulation" where
  "Firewall_generatePackets P intensity s =
     (let firewall = find_node ''firewall'' s;
          server = find_node ''server'' s;
          clients = filter (\<lambda>n. n_type n = ''client'' \<or> n_type n = ''attacker'') (nodes s)
      in for_upto_try (packetsThisFrame intensity s)
           (\<lambda>i. Firewall_slot P firewall server clients) s)"

text \<open>
  \<open>clients.filter(c => c.id !== source.id)\<close>: the callback reads \<open>source.id\<close> once for
  each client, so an \<open>undefined\<close> source raises unless there is no client.
\<close>

definition others :: "Node list \<Rightarrow> Node option \<Rightarrow> failure + Node list" where
  "others clients source =
     (if clients = [] then Inr []
      else (case source of
              None \<Rightarrow> Inl TypeError
            | Some src \<Rightarrow> Inr (filter (\<lambda>c. n_id c \<noteq> n_id src) clients)))"

definition ARPSpoof_slot ::
  "platform \<Rightarrow> Node option \<Rightarrow> Node list \<Rightarrow> Simulation \<Rightarrow> failure + Simulation" where
  "ARPSpoof_slot P attacker clients s =
     (let (u, s1) = draw_next P s
      in if u < 0.3
         then (let (source, s2) = draw_choice P clients s1
               in and_then (others clients source)
                    (\<lambda>rest.
                       let (target, s3) = draw_choice P rest s2
                       in if target \<noteq> None
                          then and_then (createPacket source attacker ''normal'' 1 s3)
                                 (\<lambda>(packet, s4). Inr (setTimeout (Relay attacker target 1) s4))
                          else Inr s3))
         else (let (v, s2) = draw_next P s1
               in if v < 0.5
                  then (let (target, s3) = draw_choice P clients s2
                        in and_then (createPacket attacker target ''attack'' 2 s3)
                             (\<lambda>(packet, s4). Inr s4))
                  else Inr s2))"

definition ARPSpoof_generatePackets :: "platform \<Rightarrow> real \<Rightarrow> Simulation \<Rightarrow> failure + Simulation" where
  "ARPSpoof_generatePackets P intensity s =
     (let attacker = find_node ''attacker'' s;
          clients = nodes_of_type ''client'' s
      in for_upto_try (packetsThisFrame intensity s)
           (\<lambda>i. ARPSpoof_slot P attacker clients) s)"

definition generatePackets :: "platform \<Rightarrow> real \<Rightarrow> Simulation \<Rightarrow> failure + Simulation" where
  "generatePackets P intensity s =
     (case variant s of
        DDoSAttack \<Rightarrow> DDoS_generatePackets P intensity s
      | MITMAttack \<Rightarrow> MITM_generatePackets P intensity s
      | FirewallAttack \<Rightarrow> Firewall_generatePackets P intensity s
      | ARPSpoofAttack \<Rightarrow> ARPSpoof_generatePackets P intensity s)"

subsection \<open>updateMetrics()\<close>

definition activePackets :: "Simulation \<Rightarrow> nat" where
  "activePackets s = length (filter p_active (packets s))"

text \<open>
  The \<open>forEach\<close> of the overloaded DDoS server: an active packet past 90 percent of its
  way draws from the generator and is dropped when the draw is below 0.3. The result is
  the packets after the pass, the generator, and the counter \<open>packetsDropped\<close>.
\<close>

fun drop_overloaded ::
  "platform \<Rightarrow> Packet list \<Rightarrow> SeededRandom \<Rightarrow> nat \<Rightarrow> Packet list \<times> SeededRandom \<times> nat" where
  "drop_overloaded P [] r dropped = ([], r, dropped)"
| "drop_overloaded P (packet # rest) r dropped =
     (if p_active packet \<and> p_progress packet > 0.9
      then (let (u, r') = rng_next P r
            in if u < 0.3
               then (let (rest', r'', dropped') = drop_overloaded P rest r' (dropped + 1)
                     in (packet\<lparr>p_active := False\<rparr> # rest', r'', dropped'))
               else (let (rest', r'', dropped') = drop_overloaded P rest r' dropped
                     in (packet # rest', r'', dropped')))
      else (let (rest', r'', dropped') = drop_overloaded P rest r dropped
            in (packet # rest', r'', dropped')))"

text \<open>
  The \<open>forEach\<close> that counts arrivals: one more \<open>packetsReceived\<close> for each packet of
  the live collection that satisfies the test.
\<close>

definition count_received :: "(Packet \<Rightarrow> bool) \<Rightarrow> Simulation \<Rightarrow> Simulation" where
  "count_received arrived s =
     s\<lparr>metrics := (metrics s)\<lparr>packetsReceived :=
          packetsReceived (metrics s) + length (filter arrived (packets s))\<rparr>\<rparr>"

definition DDoS_updateMetrics :: "platform \<Rightarrow> Simulation \<Rightarrow> Simulation" where
  "DDoS_updateMetrics P s =
     (let load = min 100 ((real (activePackets s) / 50) * 100);
          s1 = s\<lparr>metrics := (metrics s)\<lparr>serverLoad := load\<rparr>\<rparr>;
          s2 = s1\<lparr>metrics := (metrics s1)\<lparr>latency :=
                   of_int \<lfloor>10 + (serverLoad (metrics s1) / 100) * 500\<rfloor>\<rparr>\<rparr>
      in if serverLoad (metrics s2) > 80
         then (let (ps, r, dropped) =
                     drop_overloaded P (packets s2) (rng s2) (packetsDropped (metrics s2))
               in s2\<lparr>packets := ps, rng := r,
                     metrics := (metrics s2)\<lparr>packetsDropped := dropped\<rparr>\<rparr>)
         else count_received (\<lambda>packet. \<not> p_active packet \<and> p_progress packet \<ge> 1) s2)"

definition MITM_updateMetrics :: "platform \<Rightarrow> Simulation \<Rightarrow> Simulation" where
  "MITM_updateMetrics P s =
     (let load = min 100 ((real (activePackets s) / 20) * 100);
          s1 = s\<lparr>metrics := (metrics s)\<lparr>serverLoad := load\<rparr>\<rparr>;
          (d, s2) = draw_range P 0 100 s1;
          s3 = s2\<lparr>metrics := (metrics s2)\<lparr>latency := of_int \<lfloor>150 + d\<rfloor>\<rparr>\<rparr>
      in count_received (\<lambda>packet. \<not> p_active packet \<and> p_progress packet \<ge> 1) s3)"

definition Firewall_updateMetrics :: "platform \<Rightarrow> Simulation \<Rightarrow> Simulation" where
  "Firewall_updateMetrics P s =
     (let load = min 100 ((real (activePackets s) / 30) * 100);
          s1 = s\<lparr>metrics := (metrics s)\<lparr>serverLoad := load\<rparr>\<rparr>;
          s2 = s1\<lparr>metrics := (metrics s1)\<lparr>latency :=
                   of_int \<lfloor>50 + (serverLoad (metrics s1) / 100) * 200\<rfloor>\<rparr>\<rparr>
      in count_received
           (\<lambda>packet. \<not> p_active packet \<and> p_progress packet \<ge> 1 \<and> p_type packet \<noteq> ''blocked'')
           s2)"

definition ARPSpoof_updateMetrics :: "platform \<Rightarrow> Simulation \<Rightarrow> Simulation" where
  "ARPSpoof_updateMetrics P s =
     (let load = min 100 ((real (activePackets s) / 40) * 100);
          s1 = s\<lparr>metrics := (metrics s)\<lparr>serverLoad := load\<rparr>\<rparr>;
          (d, s2) = draw_range P 0 100 s1;
          s3 = s2\<lparr>metrics := (metrics s2)\<lparr>latency := of_int \<lfloor>30 + d\<rfloor>\<rparr>\<rparr>
      in count_received (\<lambda>packet. \<not> p_active packet \<and> p_progress packet \<ge> 1) s3)"

definition updateMetrics :: "platform \<Rightarrow> Simulation \<Rightarrow> Simulation" where
  "updateMetrics P s =
     (case variant s of
        DDoSAttack \<Rightarrow> DDoS_updateMetrics P s
      | MITMAttack \<Rightarrow> MITM_updateMetrics P s
      | FirewallAttack \<Rightarrow> Firewall_updateMetrics P s
      | ARPSpoofAttack \<Rightarrow> ARPSpoof_updateMetrics P s)"

subsection \<open>update(deltaTime, speed, intensity)\<close>

text \<open>
  \<open>this.packets.filter(packet => packet.update())\<close>: every packet of the collection is
  updated, in order, and those whose update returned \<open>true\<close> are kept.
\<close>

fun filter_update :: "Packet list \<Rightarrow> failure + Packet list" where
  "filter_update [] = Inr []"
| "filter_update (packet # rest) =
     (case Packet_update packet of
        Inl e \<Rightarrow> Inl e
      | Inr (keep, packet') \<Rightarrow>
          (case filter_update rest of
             Inl e \<Rightarrow> Inl e
           | Inr rest' \<Rightarrow> Inr (if keep then packet' # rest' else rest')))"

text \<open>The first two statements of \<open>update\<close>: the clock, and the filter pass.\<close>

definition advance_packets :: "real \<Rightarrow> real \<Rightarrow> Simulation \<Rightarrow> failure + Simulation" where
  "advance_packets deltaTime speed s =
     (let s1 = s\<lparr>time := time s + deltaTime * speed\<rparr>
      in and_then (filter_update (packets s1)) (\<lambda>ps. Inr (s1\<lparr>packets := ps\<rparr>)))"

definition update :: "platform \<Rightarrow> real \<Rightarrow> real \<Rightarrow> real \<Rightarrow> Simulation \<Rightarrow> failure + Simulation" where
  "update P deltaTime speed intensity s =
     and_then (advance_packets deltaTime speed s)
       (\<lambda>s2. and_then (generatePackets P intensity s2)
          (\<lambda>s3. Inr (updateMetrics P s3)))"

subsection \<open>Scheduled callbacks\<close>

definition forward ::
  "Node option \<Rightarrow> Node option \<Rightarrow> string \<Rightarrow> real \<Rightarrow> Simulation \<Rightarrow> failure + Simulation" where
  "forward a b type speed s =
     (if a \<noteq> None \<and> b \<noteq> None
      then and_then (createPacket a b type speed s) (\<lambda>(packet, s'). Inr s')
      else Inr s)"

text \<open>
  \<open>packet.type = 'blocked'; packet.active = false; this.metrics.packetsBlocked++\<close> on the
  packet object the closure holds. The object is changed where it stands in the live
  collection; when it has left the collection only the counter shows the change.
\<close>

definition block_packet :: "nat \<Rightarrow> Simulation \<Rightarrow> Simulation" where
  "block_packet ident s =
     s\<lparr>packets := map (\<lambda>packet. if p_id packet = ident
                                 then packet\<lparr>p_type := ''blocked'', p_active := False\<rparr>
                                 else packet) (packets s),
       metrics := (metrics s)\<lparr>packetsBlocked := packetsBlocked (metrics s) + 1\<rparr>\<rparr>"

fun run_callback :: "platform \<Rightarrow> Timer \<Rightarrow> Simulation \<Rightarrow> failure + Simulation" where
  "run_callback P (Relay attacker target speed) s = forward attacker target ''attack'' speed s"
| "run_callback P (Decide isAttack ident packetType firewall server) s =
     (if isAttack
      then (let (u, s1) = draw_next P s
            in if js_less u (sc_blockRate (scenario s1))
               then Inr (block_packet ident s1)
               else forward firewall server packetType 1.5 s1)
      else forward firewall server packetType 1.5 s)"

text \<open>
  What happens to a simulation: the driver calls \<open>update\<close>, or the oldest scheduled
  callback runs. All callbacks of one simulation are scheduled with the same delay, so
  they run in the order in which they were scheduled; when each runs, relative to the
  calls of \<open>update\<close>, is decided by the clock of the platform.
\<close>

datatype Event = Update real real real | TimerFires

fun step :: "platform \<Rightarrow> Event \<Rightarrow> Simulation \<Rightarrow> failure + Simulation" where
  "step P (Update deltaTime speed intensity) s = update P deltaTime speed intensity s"
| "step P TimerFires s =
     (case timers s of
        [] \<Rightarrow> Inr s
      | t # ts \<Rightarrow> run_callback P t (s\<lparr>timers := ts\<rparr>))"

fun run :: "platform \<Rightarrow> Event list \<Rightarrow> Simulation \<Rightarrow> failure + Simulation" where
  "run P [] s = Inr s"
| "run P (e # es) s = and_then (step P e s) (run P es)"


text \<open>
  What holds of every packet of the live collection between two events: its speed is one
  of those the scenarios use, its progress is in \<open>[0, 1)\<close>, and it has a target.
\<close>

definition packet_ok :: "Packet \<Rightarrow> bool" where
  "packet_ok p \<longleftrightarrow>
     1 \<le> p_speed p \<and> p_speed p \<le> 2 \<and> 0 \<le> p_progress p \<and> p_progress p < 1 \<and>
     p_target p \<noteq> None"

fun timer_ok :: "Timer \<Rightarrow> bool" where
  "timer_ok (Relay attacker target speed) = (1 \<le> speed \<and> speed \<le> 2)"
| "timer_ok (Decide isAttack ident packetType firewall server) = True"

text \<open>
  The nodes that \<open>generatePackets\<close> looks up are there (or the scenario has no
  \<open>packetsPerSecond\<close>, and the loop of \<open>generatePackets\<close> does not run).
\<close>

definition ready :: "Simulation \<Rightarrow> bool" where
  "ready s \<longleftrightarrow>
     sc_packetsPerSecond (scenario s) = None \<or>
     (case variant s of
        DDoSAttack \<Rightarrow> find_node ''server'' s \<noteq> None \<and> nodes_of_type ''attacker'' s \<noteq> []
      | MITMAttack \<Rightarrow>
          find_node ''client1'' s \<noteq> None \<and> find_node ''client2'' s \<noteq> None \<and>
          find_node ''attacker'' s \<noteq> None
      | FirewallAttack \<Rightarrow>
          find_node ''firewall'' s \<noteq> None \<and>
          filter (\<lambda>n. n_type n = ''client'' \<or> n_type n = ''attacker'') (nodes s) \<noteq> []
      | ARPSpoofAttack \<Rightarrow> find_node ''attacker'' s \<noteq> None \<and> nodes_of_type ''client'' s \<noteq> [])"

definition tidy :: "Simulation \<Rightarrow> bool" where
  "tidy s \<longleftrightarrow> list_all packet_ok (packets s) \<and> list_all timer_ok (timers s)"

definition sound :: "Simulation \<Rightarrow> bool" where
  "sound s \<longleftrightarrow> ready s \<and> tidy s \<and> packetsReceived (metrics s) = 0"

text \<open>
  \<open>built_from s t\<close>: \<open>t\<close> is \<open>s\<close> with more nodes, each node of \<open>s\<close> still there under its
  id and type (and perhaps a generator that has moved on), as during \<open>initialize()\<close>.
\<close>

definition node_key :: "Node \<Rightarrow> string \<times> string" where
  "node_key n = (n_id n, n_type n)"

definition built_from :: "Simulation \<Rightarrow> Simulation \<Rightarrow> bool" where
  "built_from s t \<longleftrightarrow>
     set (map node_key (nodes s)) \<subseteq> set (map node_key (nodes t)) \<and>
     packets t = packets s \<and> timers t = timers s \<and>
     metrics t = metrics s \<and> variant t = variant s \<and> scenario t = scenario s \<and>
     canvasWidth t = canvasWidth s \<and> canvasHeight t = canvasHeight s \<and>
     time t = time s \<and> packetIdCounter t = packetIdCounter s"

section \<open>Concrete platforms and inputs\<close>

text \<open>
  Two platforms on which the model can be run. On \<open>low_platform\<close> every \<open>next()\<close> of the
  generator returns 0; on \<open>half_platform\<close> every \<open>next()\<close> returns 0.5. They differ in what
  \<open>Math.random\<close> returns as well.
\<close>

definition low_platform :: platform where
  "low_platform =
     \<lparr>Math_sin = (\<lambda>x. 0), Math_cos = (\<lambda>x. 1), Math_sqrt = (\<lambda>x. 3),
      Math_PI = 3.141592653589793, Math_random = (\<lambda>k. 0)\<rparr>"

definition half_platform :: platform where
  "half_platform =
     \<lparr>Math_sin = (\<lambda>x. 0.00005), Math_cos = (\<lambda>x. 1), Math_sqrt = (\<lambda>x. 3),
      Math_PI = 3.141592653589793, Math_random = (\<lambda>k. 0.25)\<rparr>"


section \<open>Predicates of the specification\<close>

text \<open>A packet as \<open>createPacket\<close> makes it for the four scenarios.\<close>

definition fresh :: "Packet \<Rightarrow> bool" where
  "fresh p \<longleftrightarrow> p_active p \<and> p_progress p = 0 \<and> 1 \<le> p_speed p \<and> p_speed p \<le> 2"

text \<open>
  \<open>grows s s'\<close>: from \<open>s\<close> to \<open>s'\<close> the live collection has only gained fresh packets at
  its end, each counted in \<open>packetsSent\<close> and numbered from \<open>packetIdCounter\<close>, and nothing
  else has changed but the generator and the scheduled callbacks.
\<close>

definition grows :: "Simulation \<Rightarrow> Simulation \<Rightarrow> bool" where
  "grows s s' \<longleftrightarrow>
     (\<exists>new. packets s' = packets s @ new \<and> list_all fresh new \<and>
            packetsSent (metrics s') = packetsSent (metrics s) + length new \<and>
            packetIdCounter s' = packetIdCounter s + length new) \<and>
     metrics s' = (metrics s)\<lparr>packetsSent := packetsSent (metrics s')\<rparr> \<and>
     variant s' = variant s \<and> scenario s' = scenario s \<and> nodes s' = nodes s \<and>
     canvasWidth s' = canvasWidth s \<and> canvasHeight s' = canvasHeight s \<and> time s' = time s"

text \<open>The four counters of \<open>s'\<close> are at least those of \<open>s\<close>.\<close>

definition counters_le :: "Simulation \<Rightarrow> Simulation \<Rightarrow> bool" where
  "counters_le s s' \<longleftrightarrow>
     packetsSent (metrics s) \<le> packetsSent (metrics s') \<and>
     packetsReceived (metrics s) \<le> packetsReceived (metrics s') \<and>
     packetsDropped (metrics s) \<le> packetsDropped (metrics s') \<and>
     packetsBlocked (metrics s) \<le> packetsBlocked (metrics s')"


text \<open>
  The simulations the factory returns for \<open>'mitm'\<close> and \<open>'ddos'\<close> on \<open>low_platform\<close>, with a
  generator of seed 42 and a canvas of 800 by 600.
\<close>

definition mitm_start :: Simulation where
  "mitm_start =
     initialize low_platform
       (new_AttackSimulation MITMAttack
          \<lparr>sc_attackers = Some 1, sc_legitimateClients = None, sc_nodes = None,
           sc_packetsPerSecond = Some 20, sc_blockRate = None\<rparr>
          (new_SeededRandom 42) 800 600)"

definition ddos_start :: Simulation where
  "ddos_start =
     initialize low_platform
       (new_AttackSimulation DDoSAttack
          \<lparr>sc_attackers = Some 30, sc_legitimateClients = None, sc_nodes = None,
           sc_packetsPerSecond = Some 100, sc_blockRate = None\<rparr>
          (new_SeededRandom 42) 800 600)"

text \<open>
  A simulation in which one packet is one step away from its target: a packet is sent
  from the first node to the second, and its progress set to 0.99.
\<close>

definition arriving :: "Simulation \<Rightarrow> Simulation" where
  "arriving s =
     (case createPacket (array_get (nodes s) 0) (array_get (nodes s) 1) ''normal'' 1.5 s of
        Inl e \<Rightarrow> s
      | Inr (packet, s') \<Rightarrow>
          s'\<lparr>packets := map (\<lambda>p. p\<lparr>p_progress := 0.99\<rparr>) (packets s')\<rparr>)"

section \<open>Properties of SeededRandom\<close>

lemma rng_next_originalSeed: "originalSeed (snd (rng_next P r)) = originalSeed r"
  by (simp add: rng_next_def Let_def)

lemma rng_draws_originalSeed: "originalSeed (snd (rng_draws P n r)) = originalSeed r"
proof (induction n arbitrary: r)
  case 0
  show ?case by simp
next
  case (Suc n)
  have "originalSeed (snd (rng_draws P n (snd (rng_next P r)))) = originalSeed r"
    using Suc.IH [of "snd (rng_next P r)"] by (simp add: rng_next_originalSeed)
  then show ?case by (simp add: split_beta Let_def)
qed

lemma rng_reset_eq_new: "rng_reset r = new_SeededRandom (originalSeed r)"
  by (simp add: rng_reset_def new_SeededRandom_def)

lemma rng_next_unit_interval: "0 \<le> fst (rng_next P r) \<and> fst (rng_next P r) < 1"
  by (simp add: rng_next_def Let_def) linarith

text \<open>
  C4. For every seed \<open>s\<close> and every \<open>n\<close>: after any number \<open>k\<close> of calls to \<open>next()\<close> on a
  generator constructed with seed \<open>s\<close>, calling \<open>reset()\<close> and then \<open>next()\<close> \<open>n\<close> times gives
  the same \<open>n\<close> outputs as \<open>n\<close> calls on the freshly constructed generator.
\<close>

theorem rng_reset_reproduces:
  "fst (rng_draws P n (rng_reset (snd (rng_draws P k (new_SeededRandom s)))))
     = fst (rng_draws P n (new_SeededRandom s))"
proof -
  have "originalSeed (snd (rng_draws P k (new_SeededRandom s))) = s"
    by (simp add: rng_draws_originalSeed new_SeededRandom_def)
  then show ?thesis by (simp add: rng_reset_eq_new)
qed

text \<open>
  C5 (as the code has it). \<open>choice\<close> on an empty array does not fail: it draws once from
  the generator (the seed advances by one) and returns \<open>undefined\<close>.
\<close>

theorem rng_choice_empty_undefined:
  "rng_choice P [] r = (None, r\<lparr>seed := seed r + 1\<rparr>)"
  by (simp add: rng_choice_def rng_int_def rng_range_def rng_next_def array_get_def Let_def)

text \<open>
  C5, the claim as written, fails: on the generator with seed 42 and the empty array,
  \<open>choice\<close> returns normally, with the value \<open>undefined\<close> and the seed moved to 43.
\<close>

theorem rng_choice_empty_counterexample:
  "rng_choice low_platform ([] :: Node list) (new_SeededRandom 42)
   = (None, \<lparr>seed = 43, originalSeed = 42\<rparr>)"
  by (simp add: rng_choice_def rng_int_def rng_range_def rng_next_def array_get_def
      new_SeededRandom_def Let_def)

section \<open>Loops\<close>

lemma and_then_Inr: "and_then r f = Inr y \<longleftrightarrow> (\<exists>x. r = Inr x \<and> f x = Inr y)"
  by (cases r) (simp_all add: and_then_def)

lemma for_loop_try_invariant:
  "for_loop_try i bound body s = Inr s' \<Longrightarrow> I s \<Longrightarrow>
   (\<And>j t t'. I t \<Longrightarrow> body j t = Inr t' \<Longrightarrow> I t') \<Longrightarrow> I s'"
proof (induction i bound body s rule: for_loop_try.induct)
  case (1 i bound body s)
  show ?case
  proof (cases "real i < bound")
    case True
    with "1.prems"(1) obtain s1 where s1: "body i s = Inr s1"
      and rest: "for_loop_try (Suc i) bound body s1 = Inr s'"
      by (simp add: for_loop_try.simps [of i] split: sum.splits)
    have "I s1" using "1.prems"(2,3) s1 by blast
    with "1.IH" [OF True s1 rest] "1.prems"(3) show ?thesis by blast
  next
    case False
    with "1.prems" show ?thesis by (simp add: for_loop_try.simps [of i])
  qed
qed

lemma for_loop_try_total:
  "I s \<Longrightarrow> (\<And>j t. I t \<Longrightarrow> \<exists>t'. body j t = Inr t' \<and> I t') \<Longrightarrow>
   \<exists>s'. for_loop_try i bound body s = Inr s' \<and> I s'"
proof (induction i bound body s rule: for_loop_try.induct)
  case (1 i bound body s)
  show ?case
  proof (cases "real i < bound")
    case True
    from "1.prems" obtain s1 where s1: "body i s = Inr s1" and I1: "I s1" by blast
    from "1.IH" [OF True s1 I1] "1.prems"(2)
    obtain s' where "for_loop_try (Suc i) bound body s1 = Inr s'" "I s'" by blast
    with True s1 show ?thesis by (simp add: for_loop_try.simps [of i])
  next
    case False
    with "1.prems" show ?thesis by (simp add: for_loop_try.simps [of i])
  qed
qed

lemma for_upto_try_invariant:
  "for_upto_try bound body s = Inr s' \<Longrightarrow> I s \<Longrightarrow>
   (\<And>j t t'. I t \<Longrightarrow> body j t = Inr t' \<Longrightarrow> I t') \<Longrightarrow> I s'"
  unfolding for_upto_try_def
  by (cases bound) (auto elim: for_loop_try_invariant [where I = I])

lemma for_upto_try_total:
  "I s \<Longrightarrow> (\<And>j t. I t \<Longrightarrow> \<exists>t'. body j t = Inr t' \<and> I t') \<Longrightarrow>
   \<exists>s'. for_upto_try bound body s = Inr s' \<and> I s'"
  unfolding for_upto_try_def
  by (cases bound) (auto intro: for_loop_try_total [where I = I])

lemma for_loop_fold: "for_loop i b body s = fold body [i ..< nat \<lceil>b\<rceil>] s"
proof (induction i b body s rule: for_loop.induct)
  case (1 i bound body s)
  show ?case
  proof (cases "real i < bound")
    case True
    then have "i < nat \<lceil>bound\<rceil>" by linarith
    then have "[i ..< nat \<lceil>bound\<rceil>] = i # [Suc i ..< nat \<lceil>bound\<rceil>]"
      by (simp add: upt_conv_Cons)
    with True 1 show ?thesis by (simp add: for_loop.simps [of i])
  next
    case False
    then have "nat \<lceil>bound\<rceil> \<le> i" by linarith
    with False show ?thesis by (simp add: for_loop.simps [of i])
  qed
qed

section \<open>Packets\<close>

lemma Packet_update_cases:
  assumes "Packet_update p = Inr (keep, p')"
  shows "(\<not> p_active p \<and> \<not> keep \<and> p' = p) \<or>
         (p_active p \<and> p_progress p' = p_progress p + p_speed p * 0.01 \<and>
          keep = p_active p' \<and> p_active p' = (p_progress p' < 1) \<and>
          p_id p' = p_id p \<and> p_speed p' = p_speed p \<and> p_type p' = p_type p \<and>
          p_source p' = p_source p \<and> p_target p' = p_target p)"
  using assms
  by (auto simp: Packet_update_def Let_def split: if_splits option.splits)

lemma filter_update_kept:
  "filter_update ps = Inr ps' \<Longrightarrow> p' \<in> set ps' \<Longrightarrow> p_active p' \<and> p_progress p' < 1"
proof (induction ps arbitrary: ps')
  case Nil
  then show ?case by simp
next
  case (Cons p ps)
  from Cons.prems(1) obtain keep q rest where q: "Packet_update p = Inr (keep, q)"
    and rest: "filter_update ps = Inr rest"
    and ps': "ps' = (if keep then q # rest else rest)"
    by (auto split: sum.splits)
  show ?case
  proof (cases "p' \<in> set rest")
    case True
    with Cons.IH [OF rest] show ?thesis by blast
  next
    case False
    with Cons.prems(2) ps' have "keep" "p' = q" by (auto split: if_splits)
    with Packet_update_cases [OF q] show ?thesis by auto
  qed
qed


section \<open>What one call adds to the simulation\<close>

lemma grows_refl: "grows s s"
  by (simp add: grows_def)

lemma grows_trans: "grows a b \<Longrightarrow> grows b c \<Longrightarrow> grows a c"
  unfolding grows_def
  apply (elim conjE exE)
  subgoal for new1 new2
    apply (intro conjI)
    apply (rule exI [of _ "new1 @ new2"])
    apply simp_all
    done
  done

lemma grows_rng [simp]: "grows s (t\<lparr>rng := r\<rparr>) = grows s t"
  by (simp add: grows_def)

lemma grows_timers [simp]: "grows s (t\<lparr>timers := ts\<rparr>) = grows s t"
  by (simp add: grows_def)

lemma draw_next_grows [simp]: "grows s (snd (draw_next P t)) = grows s t"
  by (simp add: draw_next_def split_beta)

lemma draw_range_grows [simp]: "grows s (snd (draw_range P lo hi t)) = grows s t"
  by (simp add: draw_range_def split_beta)

lemma draw_choice_grows [simp]: "grows s (snd (draw_choice P xs t)) = grows s t"
  by (simp add: draw_choice_def split_beta)

lemma setTimeout_grows [simp]: "grows s (setTimeout x t) = grows s t"
  by (simp add: setTimeout_def)

lemma createPacket_grows:
  "createPacket a b ty sp t = Inr (p, s') \<Longrightarrow> grows s t \<Longrightarrow> 1 \<le> sp \<Longrightarrow> sp \<le> 2 \<Longrightarrow> grows s s'"
proof -
  assume c: "createPacket a b ty sp t = Inr (p, s')" and g: "grows s t"
    and sp: "1 \<le> sp" "sp \<le> 2"
  from c sp have "grows t s'"
    by (auto simp: createPacket_def new_Packet_def grows_def fresh_def
        split: sum.splits option.splits)
  with g show ?thesis by (rule grows_trans)
qed

lemma DDoS_slot_grows: "DDoS_slot P server attackers s = Inr s' \<Longrightarrow> grows s s'"
  by (auto simp: DDoS_slot_def Let_def split_beta and_then_Inr grows_refl split: if_splits
      dest!: createPacket_grows [where s = s])

lemma MITM_slot_grows: "MITM_slot P c1 c2 a s = Inr s' \<Longrightarrow> grows s s'"
  by (auto simp: MITM_slot_def Let_def split_beta and_then_Inr grows_refl split: if_splits
      dest!: createPacket_grows [where s = s])

lemma Firewall_slot_grows: "Firewall_slot P fw srv clients s = Inr s' \<Longrightarrow> grows s s'"
  by (auto simp: Firewall_slot_def Let_def split_beta and_then_Inr grows_refl
      split: if_splits option.splits dest!: createPacket_grows [where s = s])

lemma createPacket_and_then_grows:
  "and_then (createPacket a b ty sp t) (\<lambda>(packet, s4). Inr (f packet s4)) = Inr s' \<Longrightarrow>
   grows s t \<Longrightarrow> 1 \<le> sp \<Longrightarrow> sp \<le> 2 \<Longrightarrow> (\<And>packet u. grows s (f packet u) = grows s u) \<Longrightarrow>
   grows s s'"
  by (auto simp: and_then_Inr dest!: createPacket_grows [where s = s])

lemma ARPSpoof_slot_grows:
  assumes "ARPSpoof_slot P a clients s = Inr s'"
  shows "grows s s'"
proof (cases "fst (draw_next P s) < 0.3")
  case True
  let ?s2 = "snd (draw_choice P clients (snd (draw_next P s)))"
  let ?src = "fst (draw_choice P clients (snd (draw_next P s)))"
  from assms True have "\<exists>rest. others clients ?src = Inr rest \<and>
      (if fst (draw_choice P rest ?s2) \<noteq> None
       then and_then (createPacket ?src a ''normal'' 1 (snd (draw_choice P rest ?s2)))
              (\<lambda>(packet, s4).
                 Inr (setTimeout (Relay a (fst (draw_choice P rest ?s2)) 1) s4))
       else Inr (snd (draw_choice P rest ?s2))) = Inr s'"
    unfolding ARPSpoof_slot_def Let_def split_beta
    by (simp only: if_True and_then_Inr [of "others _ _"])
  then obtain rest where
    body: "(if fst (draw_choice P rest ?s2) \<noteq> None
            then and_then (createPacket ?src a ''normal'' 1 (snd (draw_choice P rest ?s2)))
                   (\<lambda>(packet, s4).
                      Inr (setTimeout (Relay a (fst (draw_choice P rest ?s2)) 1) s4))
            else Inr (snd (draw_choice P rest ?s2))) = Inr s'"
    by blast
  have s2: "grows s ?s2" by (simp add: grows_refl)
  show ?thesis
  proof (cases "fst (draw_choice P rest ?s2) \<noteq> None")
    case True
    with body have "and_then (createPacket ?src a ''normal'' 1 (snd (draw_choice P rest ?s2)))
                   (\<lambda>(packet, s4).
                      Inr (setTimeout (Relay a (fst (draw_choice P rest ?s2)) 1) s4)) = Inr s'"
      by simp
    then show ?thesis
      by (rule createPacket_and_then_grows) (simp_all add: grows_refl)
  next
    case False
    with body have "s' = snd (draw_choice P rest ?s2)" by simp
    then show ?thesis by (simp add: grows_refl)
  qed
next
  case False
  show ?thesis
  proof (cases "fst (draw_next P (snd (draw_next P s))) < 0.5")
    case True
    with assms \<open>\<not> fst (draw_next P s) < 0.3\<close> show ?thesis
      by (auto simp: ARPSpoof_slot_def Let_def split_beta grows_refl
          elim!: createPacket_and_then_grows [where s = s])
  next
    case False
    with assms \<open>\<not> fst (draw_next P s) < 0.3\<close> show ?thesis
      by (auto simp: ARPSpoof_slot_def Let_def split_beta grows_refl)
  qed
qed

lemma generatePackets_grows: "generatePackets P intensity s = Inr s' \<Longrightarrow> grows s s'"
proof -
  assume g: "generatePackets P intensity s = Inr s'"
  have DDoS: "\<And>srv as j t t'. grows s t \<Longrightarrow> DDoS_slot P srv as t = Inr t' \<Longrightarrow> grows s t'"
    by (blast intro: grows_trans DDoS_slot_grows)
  have MITM: "\<And>c1 c2 a j t t'. grows s t \<Longrightarrow> MITM_slot P c1 c2 a t = Inr t' \<Longrightarrow> grows s t'"
    by (blast intro: grows_trans MITM_slot_grows)
  have Firewall: "\<And>fw srv cs j t t'. grows s t \<Longrightarrow> Firewall_slot P fw srv cs t = Inr t' \<Longrightarrow> grows s t'"
    by (blast intro: grows_trans Firewall_slot_grows)
  have ARP: "\<And>a cs j t t'. grows s t \<Longrightarrow> ARPSpoof_slot P a cs t = Inr t' \<Longrightarrow> grows s t'"
    by (blast intro: grows_trans ARPSpoof_slot_grows)
  show ?thesis
  proof (cases "variant s")
    case DDoSAttack
    with g show ?thesis
      unfolding generatePackets_def DDoS_generatePackets_def Let_def
      by (auto elim!: for_upto_try_invariant [where I = "grows s"] intro: grows_refl DDoS)
  next
    case MITMAttack
    with g show ?thesis
      unfolding generatePackets_def MITM_generatePackets_def Let_def
      by (auto elim!: for_upto_try_invariant [where I = "grows s"] intro: grows_refl MITM)
  next
    case FirewallAttack
    with g show ?thesis
      unfolding generatePackets_def Firewall_generatePackets_def Let_def
      by (auto elim!: for_upto_try_invariant [where I = "grows s"] intro: grows_refl Firewall)
  next
    case ARPSpoofAttack
    with g show ?thesis
      unfolding generatePackets_def ARPSpoof_generatePackets_def Let_def
      by (auto elim!: for_upto_try_invariant [where I = "grows s"] intro: grows_refl ARP)
  qed
qed


section \<open>updateMetrics\<close>

lemma drop_overloaded_progress:
  "map p_progress (fst (drop_overloaded P ps r d)) = map p_progress ps"
  by (induction ps arbitrary: r d) (simp_all add: split_beta Let_def)

lemma drop_overloaded_counts: "d \<le> snd (snd (drop_overloaded P ps r d))"
proof (induction ps arbitrary: r d)
  case Nil
  show ?case by simp
next
  case (Cons p ps)
  have "d \<le> snd (snd (drop_overloaded P ps r' (d + 1)))" for r'
    using Cons.IH [of "d + 1" r'] by simp
  with Cons.IH show ?case by (simp add: split_beta Let_def)
qed

lemma count_received_none:
  "\<forall>p\<in>set (packets s). \<not> arrived p \<Longrightarrow> count_received arrived s = s"
  by (simp add: count_received_def filter_False)

lemma updateMetrics_progress:
  "map p_progress (packets (updateMetrics P s)) = map p_progress (packets s)"
  by (cases "variant s")
    (simp_all add: updateMetrics_def DDoS_updateMetrics_def MITM_updateMetrics_def
      Firewall_updateMetrics_def ARPSpoof_updateMetrics_def count_received_def
      draw_range_def Let_def split_beta drop_overloaded_progress)

lemma updateMetrics_counters: "counters_le s (updateMetrics P s)"
  by (cases "variant s")
    (simp_all add: updateMetrics_def DDoS_updateMetrics_def MITM_updateMetrics_def
      Firewall_updateMetrics_def ARPSpoof_updateMetrics_def count_received_def
      draw_range_def Let_def split_beta drop_overloaded_counts counters_le_def)

lemma updateMetrics_received:
  assumes "\<forall>p\<in>set (packets s). p_progress p < 1"
  shows "packetsReceived (metrics (updateMetrics P s)) = packetsReceived (metrics s)"
proof -
  have none: "filter (\<lambda>p. \<not> p_active p \<and> 1 \<le> p_progress p \<and> Q p) (packets s) = []" for Q
    using assms by (auto simp: filter_empty_conv)
  from none [of "\<lambda>p. True"] none [of "\<lambda>p. p_type p \<noteq> ''blocked''"] show ?thesis
    by (cases "variant s")
      (simp_all add: updateMetrics_def DDoS_updateMetrics_def MITM_updateMetrics_def
        Firewall_updateMetrics_def ARPSpoof_updateMetrics_def count_received_def
        draw_range_def Let_def split_beta)
qed

section \<open>update\<close>

lemma advance_packets_kept:
  "advance_packets dt sp s = Inr s1 \<Longrightarrow> p \<in> set (packets s1) \<Longrightarrow>
   p_active p \<and> p_progress p < 1"
  by (auto simp: advance_packets_def Let_def and_then_Inr dest: filter_update_kept)

lemma advance_packets_metrics:
  "advance_packets dt sp s = Inr s1 \<Longrightarrow> metrics s1 = metrics s"
  by (auto simp: advance_packets_def Let_def and_then_Inr)

lemma grows_below_one:
  "grows s s' \<Longrightarrow> \<forall>p\<in>set (packets s). p_progress p < 1 \<Longrightarrow>
   \<forall>p\<in>set (packets s'). p_progress p < 1"
  by (auto simp: grows_def list_all_iff fresh_def)

lemma grows_counters: "grows s s' \<Longrightarrow> counters_le s s'"
  unfolding grows_def counters_le_def
  by (elim conjE exE) (metis Metrics.select_convs(2-4) Metrics.update_convs(1) le_add1 order_refl
      Metrics.surjective)

lemma counters_le_refl: "counters_le s s"
  by (simp add: counters_le_def)

lemma counters_le_trans: "counters_le a b \<Longrightarrow> counters_le b c \<Longrightarrow> counters_le a c"
  by (auto simp: counters_le_def)

lemma update_below_one:
  assumes "update P dt sp i s = Inr s'"
  shows "\<forall>p\<in>set (packets s'). p_progress p < 1"
proof -
  from assms obtain s1 s2 where a: "advance_packets dt sp s = Inr s1"
    and g: "generatePackets P i s1 = Inr s2" and u: "s' = updateMetrics P s2"
    by (auto simp: update_def and_then_Inr)
  from a have "\<forall>p\<in>set (packets s1). p_progress p < 1"
    by (blast dest: advance_packets_kept)
  with generatePackets_grows [OF g] have "\<forall>p\<in>set (packets s2). p_progress p < 1"
    by (rule grows_below_one)
  then have "\<forall>x\<in>set (map p_progress (packets s2)). x < 1" by simp
  then have "\<forall>x\<in>set (map p_progress (packets s')). x < 1"
    by (simp only: u updateMetrics_progress)
  then show ?thesis by simp
qed

lemma update_counters:
  assumes "update P dt sp i s = Inr s'"
  shows "counters_le s s'"
proof -
  from assms obtain s1 s2 where a: "advance_packets dt sp s = Inr s1"
    and g: "generatePackets P i s1 = Inr s2" and u: "s' = updateMetrics P s2"
    by (auto simp: update_def and_then_Inr)
  from advance_packets_metrics [OF a] have "counters_le s s1" by (simp add: counters_le_def)
  moreover from g have "counters_le s1 s2" by (blast intro: grows_counters generatePackets_grows)
  moreover have "counters_le s2 s'" by (simp add: u updateMetrics_counters)
  ultimately show ?thesis by (blast intro: counters_le_trans)
qed


section \<open>Scheduled callbacks, events\<close>

lemma createPacket_counters: "createPacket a b ty sp s = Inr (p, s') \<Longrightarrow> counters_le s s'"
  by (auto simp: createPacket_def counters_le_def split: sum.splits)

lemma createPacket_below_one:
  "createPacket a b ty sp s = Inr (p, s') \<Longrightarrow> \<forall>q\<in>set (packets s). p_progress q < 1 \<Longrightarrow>
   \<forall>q\<in>set (packets s'). p_progress q < 1"
  by (auto simp: createPacket_def new_Packet_def split: sum.splits option.splits)

lemma forward_counters: "forward a b ty sp s = Inr s' \<Longrightarrow> counters_le s s'"
  by (auto simp: forward_def and_then_Inr counters_le_refl split: if_splits
      dest: createPacket_counters)

lemma forward_below_one:
  "forward a b ty sp s = Inr s' \<Longrightarrow> \<forall>q\<in>set (packets s). p_progress q < 1 \<Longrightarrow>
   \<forall>q\<in>set (packets s'). p_progress q < 1"
  by (auto simp: forward_def and_then_Inr split: if_splits dest: createPacket_below_one)

lemma draw_next_fields [simp]:
  "metrics (snd (draw_next P s)) = metrics s"
  "packets (snd (draw_next P s)) = packets s"
  "scenario (snd (draw_next P s)) = scenario s"
  "nodes (snd (draw_next P s)) = nodes s"
  "variant (snd (draw_next P s)) = variant s"
  "timers (snd (draw_next P s)) = timers s"
  "packetIdCounter (snd (draw_next P s)) = packetIdCounter s"
  by (simp_all add: draw_next_def split_beta)

lemma counters_le_draw_next [simp]: "counters_le (snd (draw_next P s)) t = counters_le s t"
  by (simp add: counters_le_def)

lemma run_callback_counters: "run_callback P t s = Inr s' \<Longrightarrow> counters_le s s'"
  by (cases t)
    (auto simp: Let_def split_beta block_packet_def counters_le_def [of s "_\<lparr>packets := _, metrics := _\<rparr>"]
      split: if_splits dest!: forward_counters)

lemma run_callback_below_one:
  "run_callback P t s = Inr s' \<Longrightarrow> \<forall>q\<in>set (packets s). p_progress q < 1 \<Longrightarrow>
   \<forall>q\<in>set (packets s'). p_progress q < 1"
  by (cases t)
    (auto simp: Let_def split_beta block_packet_def split: if_splits dest!: forward_below_one)

lemma step_counters: "step P e s = Inr s' \<Longrightarrow> counters_le s s'"
proof (cases e)
  case (Update dt sp i)
  then show "step P e s = Inr s' \<Longrightarrow> counters_le s s'" by (simp add: update_counters)
next
  case TimerFires
  assume "step P e s = Inr s'"
  with TimerFires show "counters_le s s'"
    by (cases "timers s")
      (auto simp: counters_le_refl dest!: run_callback_counters simp: counters_le_def)
qed

section \<open>The simulation never raises\<close>

lemma rng_choice_Some:
  assumes "xs \<noteq> []"
  shows "\<exists>x. fst (rng_choice P xs r) = Some x \<and> x \<in> set xs"
proof -
  define u where "u = fst (rng_next P r)"
  define n where "n = length xs"
  have u: "0 \<le> u" "u < 1" using rng_next_unit_interval [of P r] by (simp_all add: u_def)
  have n: "0 < n" using assms by (simp add: n_def)
  have "u * real n < real n" using u n by simp
  then have hi: "\<lfloor>u * real n\<rfloor> < int n" by linarith
  have "0 \<le> u * real n" using u by simp
  then have lo: "0 \<le> \<lfloor>u * real n\<rfloor>" by simp
  have "fst (rng_choice P xs r) = array_get xs \<lfloor>u * real n\<rfloor>"
    by (simp add: rng_choice_def rng_int_def rng_range_def split_beta Let_def u_def n_def)
  also have "\<dots> = Some (xs ! nat \<lfloor>u * real n\<rfloor>)"
    using lo hi by (simp add: array_get_def n_def)
  finally have c: "fst (rng_choice P xs r) = Some (xs ! nat \<lfloor>u * real n\<rfloor>)" .
  from lo hi have "nat \<lfloor>u * real n\<rfloor> < length xs" unfolding n_def by linarith
  then have "xs ! nat \<lfloor>u * real n\<rfloor> \<in> set xs" by (rule nth_mem)
  with c show ?thesis by blast
qed

lemma draw_choice_Some:
  "xs \<noteq> [] \<Longrightarrow> \<exists>x. fst (draw_choice P xs s) = Some x \<and> x \<in> set xs"
  using rng_choice_Some [of xs P "rng s"] by (simp add: draw_choice_def split_beta)


lemma find_node_Some: "find_node ident s \<noteq> None \<longleftrightarrow> (\<exists>n\<in>set (nodes s). n_id n = ident)"
  by (auto simp: find_node_def find_None_iff)

lemma Packet_update_ok:
  assumes "packet_ok p"
  shows "\<exists>keep p'. Packet_update p = Inr (keep, p') \<and> (keep \<longrightarrow> packet_ok p')"
proof (cases "p_active p")
  case False
  then show ?thesis by (auto simp: Packet_update_def)
next
  case True
  from assms obtain tgt where tgt: "p_target p = Some tgt" by (auto simp: packet_ok_def)
  from assms have "0 \<le> p_progress p + p_speed p * 0.01" by (simp add: packet_ok_def)
  with True tgt assms show ?thesis
    by (auto simp: Packet_update_def Let_def packet_ok_def)
qed

lemma filter_update_ok:
  "list_all packet_ok ps \<Longrightarrow> \<exists>ps'. filter_update ps = Inr ps' \<and> list_all packet_ok ps'"
proof (induction ps)
  case Nil
  show ?case by simp
next
  case (Cons p ps)
  then obtain ps' where ps': "filter_update ps = Inr ps'" "list_all packet_ok ps'" by auto
  from Cons.prems Packet_update_ok [of p] obtain keep p'
    where p': "Packet_update p = Inr (keep, p')" "keep \<longrightarrow> packet_ok p'" by auto
  with ps' show ?case by simp
qed


lemma tidy_draw [simp]:
  "tidy (snd (draw_next P t)) = tidy t"
  "tidy (snd (draw_choice P xs t)) = tidy t"
  "tidy (snd (draw_range P lo hi t)) = tidy t"
  by (simp_all add: tidy_def draw_next_def draw_choice_def draw_range_def split_beta)

lemma tidy_setTimeout [simp]: "tidy (setTimeout x t) = (tidy t \<and> timer_ok x)"
  by (auto simp: tidy_def setTimeout_def)

lemma createPacket_tidy:
  assumes "a \<noteq> None" "b \<noteq> None" "1 \<le> sp" "sp \<le> 2" "tidy t"
  shows "\<exists>p t'. createPacket a b ty sp t = Inr (p, t') \<and> tidy t'"
  using assms by (auto simp: createPacket_def new_Packet_def tidy_def packet_ok_def)

lemma DDoS_slot_tidy:
  assumes "server \<noteq> None" "attackers \<noteq> []" "tidy t"
  shows "\<exists>t'. DDoS_slot P server attackers t = Inr t' \<and> tidy t'"
proof (cases "fst (draw_next P t) < 0.5")
  case True
  let ?t1 = "snd (draw_next P t)"
  from draw_choice_Some [OF assms(2)] have "fst (draw_choice P attackers ?t1) \<noteq> None"
    by (metis option.distinct(1))
  from createPacket_tidy [OF this assms(1), of 2 "snd (draw_choice P attackers ?t1)" "''attack''"] assms(3)
  obtain p t' where "createPacket (fst (draw_choice P attackers ?t1)) server ''attack'' 2
      (snd (draw_choice P attackers ?t1)) = Inr (p, t')" "tidy t'"
    by auto
  with True show ?thesis by (simp add: DDoS_slot_def Let_def split_beta and_then_def)
next
  case False
  with assms show ?thesis by (simp add: DDoS_slot_def Let_def split_beta)
qed

lemma MITM_slot_tidy:
  assumes "c1 \<noteq> None" "c2 \<noteq> None" "a \<noteq> None" "tidy t"
  shows "\<exists>t'. MITM_slot P c1 c2 a t = Inr t' \<and> tidy t'"
proof (cases "fst (draw_next P t) < 0.5")
  case True
  let ?t2 = "snd (draw_next P (snd (draw_next P t)))"
  have t2: "tidy ?t2" using assms(4) by simp
  from createPacket_tidy [OF assms(1) assms(3) _ _ t2, of "1.5" "''normal''"]
  obtain p t' where 1: "createPacket c1 a ''normal'' 1.5 ?t2 = Inr (p, t')" "tidy t'" by auto
  from createPacket_tidy [OF assms(2) assms(3) _ _ t2, of "1.5" "''normal''"]
  obtain q u' where 2: "createPacket c2 a ''normal'' 1.5 ?t2 = Inr (q, u')" "tidy u'" by auto
  from True 1 2 show ?thesis
    by (simp add: MITM_slot_def Let_def split_beta and_then_def)
next
  case False
  with assms show ?thesis by (simp add: MITM_slot_def Let_def split_beta)
qed

lemma Firewall_slot_tidy:
  assumes "fw \<noteq> None" "clients \<noteq> []" "tidy t"
  shows "\<exists>t'. Firewall_slot P fw srv clients t = Inr t' \<and> tidy t'"
proof (cases "fst (draw_next P t) < 0.5")
  case True
  let ?t1 = "snd (draw_next P t)"
  let ?t2 = "snd (draw_choice P clients ?t1)"
  from draw_choice_Some [OF assms(2)] obtain c
    where c: "fst (draw_choice P clients ?t1) = Some c" by blast
  have t2: "tidy ?t2" using assms(3) by simp
  have "\<exists>p t'. createPacket (Some c) fw ty 1.5 ?t2 = Inr (p, t') \<and> tidy t'" for ty
    using createPacket_tidy [OF _ assms(1) _ _ t2, of "Some c" "1.5" ty] by simp
  then obtain p t' where "createPacket (Some c) fw
      (if n_type c = ''attacker'' then ''attack'' else ''normal'') 1.5 ?t2 = Inr (p, t')" "tidy t'"
    by blast
  with True c show ?thesis
    by (simp add: Firewall_slot_def Let_def split_beta and_then_def)
next
  case False
  with assms show ?thesis by (simp add: Firewall_slot_def Let_def split_beta)
qed


lemma ARPSpoof_slot_tidy:
  assumes "a \<noteq> None" "clients \<noteq> []" "tidy t"
  shows "\<exists>t'. ARPSpoof_slot P a clients t = Inr t' \<and> tidy t'"
proof (cases "fst (draw_next P t) < 0.3")
  case True
  let ?t1 = "snd (draw_next P t)"
  let ?t2 = "snd (draw_choice P clients ?t1)"
  from draw_choice_Some [OF assms(2)] obtain src
    where src: "fst (draw_choice P clients ?t1) = Some src" by blast
  define rest where "rest = filter (\<lambda>c. n_id c \<noteq> n_id src) clients"
  have others: "others clients (Some src) = Inr rest"
    using assms(2) by (simp add: others_def rest_def)
  let ?t3 = "snd (draw_choice P rest ?t2)"
  have t3: "tidy ?t3" using assms(3) by simp
  from createPacket_tidy [OF _ assms(1) _ _ t3, of "Some src" 1 "''normal''"]
  obtain p t' where c: "createPacket (Some src) a ''normal'' 1 ?t3 = Inr (p, t')" "tidy t'"
    by auto
  show ?thesis
  proof (cases "fst (draw_choice P rest ?t2) = None")
    case True
    with \<open>fst (draw_next P t) < 0.3\<close> src others t3 show ?thesis
      by (simp add: ARPSpoof_slot_def Let_def split_beta and_then_def)
  next
    case False
    with \<open>fst (draw_next P t) < 0.3\<close> src others c show ?thesis
      by (simp add: ARPSpoof_slot_def Let_def split_beta and_then_def)
  qed
next
  case False
  let ?t2 = "snd (draw_next P (snd (draw_next P t)))"
  let ?t3 = "snd (draw_choice P clients ?t2)"
  from draw_choice_Some [OF assms(2)] have tgt: "fst (draw_choice P clients ?t2) \<noteq> None"
    by (metis option.distinct(1))
  have t3: "tidy ?t3" using assms(3) by simp
  from createPacket_tidy [OF assms(1) tgt _ _ t3, of 2 "''attack''"]
  obtain p t' where c: "createPacket a (fst (draw_choice P clients ?t2)) ''attack'' 2 ?t3 = Inr (p, t')"
    "tidy t'" by auto
  from False c assms(3) show ?thesis
    by (simp add: ARPSpoof_slot_def Let_def split_beta and_then_def)
qed

lemma ready_cases:
  "ready s \<Longrightarrow> sc_packetsPerSecond (scenario s) = Some pps \<Longrightarrow>
   (variant s = DDoSAttack \<longrightarrow> find_node ''server'' s \<noteq> None \<and> nodes_of_type ''attacker'' s \<noteq> []) \<and>
   (variant s = MITMAttack \<longrightarrow> find_node ''client1'' s \<noteq> None \<and>
      find_node ''client2'' s \<noteq> None \<and> find_node ''attacker'' s \<noteq> None) \<and>
   (variant s = FirewallAttack \<longrightarrow> find_node ''firewall'' s \<noteq> None \<and>
      filter (\<lambda>n. n_type n = ''client'' \<or> n_type n = ''attacker'') (nodes s) \<noteq> []) \<and>
   (variant s = ARPSpoofAttack \<longrightarrow> find_node ''attacker'' s \<noteq> None \<and>
      nodes_of_type ''client'' s \<noteq> [])"
  by (auto simp: ready_def split: Variant.splits)

lemma generatePackets_tidy:
  assumes "ready s" "tidy s"
  shows "\<exists>s'. generatePackets P intensity s = Inr s' \<and> tidy s'"
proof (cases "sc_packetsPerSecond (scenario s)")
  case None
  with assms(2) show ?thesis
    by (cases "variant s")
      (simp_all add: generatePackets_def DDoS_generatePackets_def MITM_generatePackets_def
        Firewall_generatePackets_def ARPSpoof_generatePackets_def packetsThisFrame_def
        for_upto_try_def Let_def)
next
  case (Some pps)
  note r = ready_cases [OF assms(1) Some]
  show ?thesis
  proof (cases "variant s")
    case DDoSAttack
    with r assms(2) show ?thesis
      unfolding generatePackets_def DDoS_generatePackets_def Let_def
      by (auto intro!: for_upto_try_total [where I = tidy] DDoS_slot_tidy)
  next
    case MITMAttack
    with r assms(2) show ?thesis
      unfolding generatePackets_def MITM_generatePackets_def Let_def
      by (auto intro!: for_upto_try_total [where I = tidy] MITM_slot_tidy)
  next
    case FirewallAttack
    with r assms(2) show ?thesis
      unfolding generatePackets_def Firewall_generatePackets_def Let_def
      by (auto intro!: for_upto_try_total [where I = tidy] Firewall_slot_tidy)
  next
    case ARPSpoofAttack
    with r assms(2) show ?thesis
      unfolding generatePackets_def ARPSpoof_generatePackets_def Let_def
      by (auto intro!: for_upto_try_total [where I = tidy] ARPSpoof_slot_tidy)
  qed
qed


lemma ready_cong:
  "variant s' = variant s \<Longrightarrow> scenario s' = scenario s \<Longrightarrow> nodes s' = nodes s \<Longrightarrow>
   ready s' = ready s"
  by (cases "variant s") (simp_all add: ready_def find_node_def nodes_of_type_def)

lemma grows_ready: "grows s s' \<Longrightarrow> ready s' = ready s"
  by (rule ready_cong) (simp_all add: grows_def)

lemma drop_overloaded_ok:
  "list_all packet_ok ps \<Longrightarrow> list_all packet_ok (fst (drop_overloaded P ps r d))"
  by (induction ps arbitrary: r d) (simp_all add: split_beta Let_def packet_ok_def)

lemma updateMetrics_static:
  "variant (updateMetrics P s) = variant s \<and> scenario (updateMetrics P s) = scenario s \<and>
   nodes (updateMetrics P s) = nodes s \<and> timers (updateMetrics P s) = timers s"
  by (cases "variant s")
    (simp_all add: updateMetrics_def DDoS_updateMetrics_def MITM_updateMetrics_def
      Firewall_updateMetrics_def ARPSpoof_updateMetrics_def count_received_def
      draw_range_def Let_def split_beta)

lemma updateMetrics_ready: "ready (updateMetrics P s) = ready s"
  by (rule ready_cong) (simp_all add: updateMetrics_static)

lemma updateMetrics_tidy: "tidy s \<Longrightarrow> tidy (updateMetrics P s)"
  by (cases "variant s")
    (simp_all add: updateMetrics_def DDoS_updateMetrics_def MITM_updateMetrics_def
      Firewall_updateMetrics_def ARPSpoof_updateMetrics_def count_received_def
      draw_range_def Let_def split_beta tidy_def drop_overloaded_ok)

lemma tidy_below_one: "tidy s \<Longrightarrow> \<forall>p\<in>set (packets s). p_progress p < 1"
  by (simp add: tidy_def list_all_iff packet_ok_def)

lemma advance_packets_sound:
  assumes "sound s"
  shows "\<exists>s1. advance_packets dt sp s = Inr s1 \<and> sound s1"
proof -
  from assms have "list_all packet_ok (packets s)" by (simp add: sound_def tidy_def)
  from filter_update_ok [OF this] obtain ps
    where ps: "filter_update (packets s) = Inr ps" "list_all packet_ok ps" by blast
  have "ready (s\<lparr>time := time s + dt * sp, packets := ps\<rparr>) = ready s"
    by (rule ready_cong) simp_all
  with ps assms show ?thesis
    by (simp add: advance_packets_def Let_def and_then_def sound_def tidy_def)
qed

lemma update_sound:
  assumes "sound s"
  shows "\<exists>s'. update P dt sp i s = Inr s' \<and> sound s'"
proof -
  from advance_packets_sound [OF assms] obtain s1
    where s1: "advance_packets dt sp s = Inr s1" "sound s1" by blast
  from s1(2) have "ready s1" "tidy s1" by (simp_all add: sound_def)
  from generatePackets_tidy [OF this] obtain s2
    where s2: "generatePackets P i s1 = Inr s2" "tidy s2" by blast
  from generatePackets_grows [OF s2(1)] have g: "grows s1 s2" .
  then have "ready s2" using \<open>ready s1\<close> by (simp add: grows_ready)
  moreover from g s1(2) have "packetsReceived (metrics s2) = 0"
    by (auto simp: grows_def sound_def)
  ultimately have "sound (updateMetrics P s2)"
    using s2(2) updateMetrics_received [OF tidy_below_one [OF s2(2)], of P]
    by (simp add: sound_def updateMetrics_ready updateMetrics_tidy)
  with s1(1) s2(1) show ?thesis by (simp add: update_def and_then_def)
qed

lemma forward_sound:
  assumes "sound s" "1 \<le> sp" "sp \<le> 2"
  shows "\<exists>s'. forward a b ty sp s = Inr s' \<and> sound s'"
proof (cases "a \<noteq> None \<and> b \<noteq> None")
  case False
  with assms show ?thesis by (auto simp: forward_def)
next
  case True
  from assms(1) have t: "tidy s" by (simp add: sound_def)
  from True createPacket_tidy [OF _ _ assms(2,3) t, of a b ty] obtain p s'
    where c: "createPacket a b ty sp s = Inr (p, s')" "tidy s'" by blast
  from createPacket_grows [OF c(1) grows_refl assms(2,3)] have g: "grows s s'" .
  then have "packetsReceived (metrics s') = packetsReceived (metrics s)"
    by (auto simp: grows_def)
  with g c(2) assms(1) have "sound s'" by (simp add: sound_def grows_ready)
  with True c(1) show ?thesis by (simp add: forward_def and_then_def)
qed

lemma sound_draw_next [simp]: "sound (snd (draw_next P s)) = sound s"
proof -
  have "ready (snd (draw_next P s)) = ready s" by (rule ready_cong) simp_all
  then show ?thesis by (simp add: sound_def)
qed

lemma block_packet_sound: "sound s \<Longrightarrow> sound (block_packet ident s)"
proof -
  have "ready (block_packet ident s) = ready s"
    by (rule ready_cong) (simp_all add: block_packet_def)
  moreover assume "sound s"
  ultimately show ?thesis
    by (auto simp: sound_def tidy_def block_packet_def list_all_iff packet_ok_def)
qed

lemma run_callback_sound:
  assumes "sound s" "timer_ok t"
  shows "\<exists>s'. run_callback P t s = Inr s' \<and> sound s'"
proof (cases t)
  case (Relay a b sp)
  with assms show ?thesis by (simp add: forward_sound)
next
  case (Decide isAttack ident ty fw srv)
  have "\<exists>s'. forward fw srv ty 1.5 u = Inr s' \<and> sound s'" if "sound u" for u
    using that by (simp add: forward_sound)
  with Decide assms(1) show ?thesis
    by (simp add: Let_def split_beta block_packet_sound)
qed

lemma step_sound:
  assumes "sound s"
  shows "\<exists>s'. step P e s = Inr s' \<and> sound s'"
proof (cases e)
  case (Update dt sp i)
  with update_sound [OF assms] show ?thesis by simp
next
  case TimerFires
  show ?thesis
  proof (cases "timers s")
    case Nil
    with TimerFires assms show ?thesis by simp
  next
    case (Cons t ts)
    have "ready (s\<lparr>timers := ts\<rparr>) = ready s" by (rule ready_cong) simp_all
    with Cons assms have "sound (s\<lparr>timers := ts\<rparr>)" "timer_ok t"
      by (simp_all add: sound_def tidy_def)
    from run_callback_sound [OF this] TimerFires Cons show ?thesis by simp
  qed
qed

lemma run_sound: "sound s \<Longrightarrow> \<exists>s'. run P es s = Inr s' \<and> sound s'"
proof (induction es arbitrary: s)
  case Nil
  then show ?case by simp
next
  case (Cons e es)
  from step_sound [OF Cons.prems] obtain s1 where "step P e s = Inr s1" "sound s1" by blast
  with Cons.IH [of s1] show ?case by (simp add: and_then_def)
qed

section \<open>The factory\<close>

lemma for_loop_invariant:
  "I s \<Longrightarrow> (\<And>j t. I t \<Longrightarrow> I (body j t)) \<Longrightarrow> I (for_loop i bound body s)"
proof (induction i bound body s rule: for_loop.induct)
  case (1 i bound body s)
  show ?case
  proof (cases "real i < bound")
    case True
    from "1.prems" have "I (body i s)" by blast
    from "1.IH" [OF True this] "1.prems"(2) True show ?thesis
      by (simp add: for_loop.simps [of i])
  next
    case False
    with "1.prems"(1) show ?thesis by (simp add: for_loop.simps [of i])
  qed
qed

lemma for_loop_first:
  "0 < bound \<Longrightarrow> for_loop 0 bound body s = for_loop (Suc 0) bound body (body 0 s)"
  by (simp add: for_loop.simps [of 0])

lemma built_from_refl: "built_from s s"
  by (simp add: built_from_def)

lemma built_from_push: "built_from s t \<Longrightarrow> built_from s (push_node n t)"
  by (auto simp: built_from_def push_node_def)

lemma built_from_rng [simp]: "built_from s (t\<lparr>rng := r\<rparr>) = built_from s t"
  by (simp add: built_from_def)

lemma built_from_trans: "built_from a b \<Longrightarrow> built_from b c \<Longrightarrow> built_from a c"
  by (auto simp: built_from_def)

lemma node_in_push: "n \<in> set (nodes (push_node n t))"
  by (simp add: push_node_def)

lemma nodes_of_type_nonempty:
  "nodes_of_type ty s \<noteq> [] \<longleftrightarrow> (\<exists>n\<in>set (nodes s). n_type n = ty)"
  by (auto simp: nodes_of_type_def filter_empty_conv)

lemma DDoS_initialize_built: "built_from s (DDoS_initialize P s)"
  unfolding DDoS_initialize_def Let_def for_upto_def
  by (cases "sc_attackers (scenario (push_node
        (new_Node P 0 ''server'' ''server'' (canvasWidth s / 2) (canvasHeight s / 2) 40) s))")
    (auto intro!: for_loop_invariant [where I = "built_from s"] built_from_push built_from_refl)


lemma fold_push_node:
  assumes "\<And>i t. canvasWidth t = w \<Longrightarrow> canvasHeight t = h \<Longrightarrow> body i t = push_node (f i) t"
  shows "canvasWidth s = w \<Longrightarrow> canvasHeight s = h \<Longrightarrow>
         fold body is s = s\<lparr>nodes := nodes s @ map f is\<rparr>"
proof (induction "is" arbitrary: s)
  case Nil
  show ?case by simp
next
  case (Cons i "is")
  have "fold body is (push_node (f i) s) =
        (push_node (f i) s)\<lparr>nodes := nodes (push_node (f i) s) @ map f is\<rparr>"
    using Cons.prems by (intro Cons.IH) (simp_all add: push_node_def)
  with Cons.prems show ?case by (simp add: assms push_node_def)
qed

lemma DDoS_initialize_nodes:
  assumes "sc_attackers (scenario s) = Some count"
  shows "nodes (DDoS_initialize P s) =
     nodes s @
     new_Node P 0 ''server'' ''server'' (canvasWidth s / 2) (canvasHeight s / 2) 40 #
     map (\<lambda>i. (new_Node P (Suc i) (''attacker-'' @ string_of_nat i) ''attacker''
                   (canvasWidth s / 2 +
                      Math_cos P ((real i / count) * Math_PI P * 2) *
                        (min (canvasWidth s) (canvasHeight s) * 0.35))
                   (canvasHeight s / 2 +
                      Math_sin P ((real i / count) * Math_PI P * 2) *
                        (min (canvasWidth s) (canvasHeight s) * 0.35))
                   15)\<lparr>n_connections := [''server'']\<rparr>)
       [0 ..< nat \<lceil>count\<rceil>]"
  (is "_ = _ @ ?server # map ?attacker _")
proof -
  let ?s1 = "push_node ?server s"
  have "fold (\<lambda>i s'.
           let angle = (real i / count) * Math_PI P * 2;
               x = canvasWidth s' / 2 + Math_cos P angle * (min (canvasWidth ?s1) (canvasHeight ?s1) * 0.35);
               y = canvasHeight s' / 2 + Math_sin P angle * (min (canvasWidth ?s1) (canvasHeight ?s1) * 0.35);
               attacker = (new_Node P (Suc i) (''attacker-'' @ string_of_nat i)
                             ''attacker'' x y 15)\<lparr>n_connections := [''server'']\<rparr>
           in push_node attacker s') [0 ..< nat \<lceil>count\<rceil>] ?s1
        = ?s1\<lparr>nodes := nodes ?s1 @ map ?attacker [0 ..< nat \<lceil>count\<rceil>]\<rparr>"
    by (rule fold_push_node [where w = "canvasWidth s" and h = "canvasHeight s"])
      (simp_all add: Let_def push_node_def)
  with assms show ?thesis
    by (simp add: DDoS_initialize_def Let_def for_upto_def for_loop_fold push_node_def)
qed


lemma for_loop_built:
  assumes "\<And>j t. built_from t (body j t)"
  shows "built_from s (for_loop i bound body s)"
  by (rule for_loop_invariant [where I = "built_from s"])
    (blast intro: built_from_refl built_from_trans assms)+

lemma built_from_nodes:
  "built_from s t \<Longrightarrow> n \<in> set (nodes s) \<Longrightarrow>
   \<exists>m\<in>set (nodes t). n_id m = n_id n \<and> n_type m = n_type n"
  by (fastforce simp: built_from_def node_key_def image_def subset_iff)

lemma MITM_initialize_built: "built_from s (MITM_initialize P s)"
  by (auto simp: MITM_initialize_def Let_def built_from_def)

lemma Firewall_initialize_built: "built_from s (Firewall_initialize P s)"
proof -
  have base: "built_from s (s\<lparr>nodes := nodes s @ [a, b]\<rparr>)" for a b
    by (auto simp: built_from_def)
  show ?thesis
  proof (cases "opt_add (sc_attackers (scenario s)) (sc_legitimateClients (scenario s))")
    case None
    then show ?thesis
      by (simp add: Firewall_initialize_def Let_def for_upto_def base)
  next
    case (Some tot)
    then show ?thesis
      apply (simp add: Firewall_initialize_def Let_def for_upto_def)
      apply (rule built_from_trans [OF base])
      apply (rule for_loop_built)
      apply (simp add: split_beta built_from_push built_from_refl)
      done
  qed
qed

lemma ARPSpoof_initialize_built: "built_from s (ARPSpoof_initialize P s)"
proof -
  have loop: "built_from s (for_upto (sc_nodes (scenario s)) (\<lambda>count i s'. push_node (f count i s') s') s)"
    for f :: "real \<Rightarrow> nat \<Rightarrow> Simulation \<Rightarrow> Node"
    unfolding for_upto_def
    by (auto split: option.splits
        intro!: for_loop_built built_from_push built_from_refl)
  have last: "built_from t (push_node a t)" for a t
    by (simp add: built_from_push built_from_refl)
  have conn: "built_from t (t\<lparr>nodes := map (\<lambda>node. if n_type node \<noteq> ''attacker''
                           then node\<lparr>n_connections := n_connections node @ [''attacker'']\<rparr>
                           else node) (nodes t)\<rparr>)" for t
  proof -
    have "node_key \<circ> (\<lambda>node. if n_type node \<noteq> ''attacker''
                           then node\<lparr>n_connections := n_connections node @ [''attacker'']\<rparr>
                           else node) = node_key"
      by (auto simp: node_key_def fun_eq_iff)
    then show ?thesis by (simp add: built_from_def)
  qed
  show ?thesis
    unfolding ARPSpoof_initialize_def Let_def
    by (rule built_from_trans [OF built_from_trans [OF loop last] conn])
qed

lemma initialize_built: "built_from s (initialize P s)"
  by (cases "variant s")
    (simp_all add: initialize_def DDoS_initialize_built MITM_initialize_built
      Firewall_initialize_built ARPSpoof_initialize_built)


lemma for_loop_ends:
  assumes "0 < bound" and body: "\<And>j t. Q (body j t)"
  shows "Q (for_loop 0 bound body s)"
proof -
  from assms(1) have "0 < nat \<lceil>bound\<rceil>" by linarith
  then obtain n where n: "nat \<lceil>bound\<rceil> = Suc n" by (cases "nat \<lceil>bound\<rceil>") auto
  have "for_loop 0 bound body s = body n (fold body [0 ..< n] s)"
    by (simp add: for_loop_fold n)
  with body show ?thesis by simp
qed

lemma ready_iff:
  "ready s \<longleftrightarrow>
     sc_packetsPerSecond (scenario s) = None \<or>
     (case variant s of
        DDoSAttack \<Rightarrow> (\<exists>n\<in>set (nodes s). n_id n = ''server'') \<and>
                      (\<exists>n\<in>set (nodes s). n_type n = ''attacker'')
      | MITMAttack \<Rightarrow> (\<exists>n\<in>set (nodes s). n_id n = ''client1'') \<and>
                      (\<exists>n\<in>set (nodes s). n_id n = ''client2'') \<and>
                      (\<exists>n\<in>set (nodes s). n_id n = ''attacker'')
      | FirewallAttack \<Rightarrow> (\<exists>n\<in>set (nodes s). n_id n = ''firewall'') \<and>
                      (\<exists>n\<in>set (nodes s). n_type n = ''client'' \<or> n_type n = ''attacker'')
      | ARPSpoofAttack \<Rightarrow> (\<exists>n\<in>set (nodes s). n_id n = ''attacker'') \<and>
                      (\<exists>n\<in>set (nodes s). n_type n = ''client''))"
proof -
  have f: "(\<exists>y. find_node ident s = Some y) \<longleftrightarrow> (\<exists>n\<in>set (nodes s). n_id n = ident)" for ident
    using find_node_Some [of ident s] by simp
  show ?thesis
    by (cases "variant s") (simp_all add: ready_def f nodes_of_type_nonempty filter_empty_conv)
qed

lemma initialize_fields:
  "variant (initialize P s) = variant s" "scenario (initialize P s) = scenario s"
  "packets (initialize P s) = packets s" "timers (initialize P s) = timers s"
  "metrics (initialize P s) = metrics s"
  using initialize_built [of s P] by (simp_all add: built_from_def)

lemma ready_DDoS:
  assumes "variant s = DDoSAttack" "sc_attackers (scenario s) = Some count" "0 < count"
  shows "ready (DDoS_initialize P s)"
proof -
  from assms(3) have "0 < nat \<lceil>count\<rceil>" by linarith
  then have ne: "[0 ..< nat \<lceil>count\<rceil>] \<noteq> []" by simp
  have gen: "\<exists>n\<in>set (pre @ a # map g xs). n_type n = ''attacker''"
    if "xs \<noteq> []" "\<And>i. n_type (g i) = ''attacker''" for g :: "nat \<Rightarrow> Node" and xs pre a
    using that by (cases xs) auto
  have "\<exists>n\<in>set (nodes (DDoS_initialize P s)). n_type n = ''attacker''"
    unfolding DDoS_initialize_nodes [OF assms(2)]
    by (rule gen [OF ne]) (simp add: new_Node_def)
  moreover have "\<exists>n\<in>set (nodes (DDoS_initialize P s)). n_id n = ''server''"
    unfolding DDoS_initialize_nodes [OF assms(2)] by (simp add: new_Node_def)
  moreover have "variant (DDoS_initialize P s) = DDoSAttack"
    using DDoS_initialize_built [of s P] assms(1) by (simp add: built_from_def)
  ultimately show ?thesis by (simp add: ready_iff)
qed

lemma ready_MITM:
  assumes "variant s = MITMAttack"
  shows "ready (MITM_initialize P s)"
  using assms by (simp add: ready_iff MITM_initialize_def Let_def new_Node_def)

lemma ready_Firewall:
  assumes "variant s = FirewallAttack"
    "opt_add (sc_attackers (scenario s)) (sc_legitimateClients (scenario s)) = Some tot" "0 < tot"
  shows "ready (Firewall_initialize P s)"
proof -
  have v: "variant (Firewall_initialize P s) = FirewallAttack"
    using Firewall_initialize_built [of s P] assms(1) by (simp add: built_from_def)
  have fw: "\<exists>n\<in>set (nodes (Firewall_initialize P s)). n_id n = ''firewall''"
    using assms(2)
    apply (simp add: Firewall_initialize_def Let_def for_upto_def)
    apply (rule for_loop_invariant [where I = "\<lambda>t. \<exists>n\<in>set (nodes t). n_id n = ''firewall''"])
     apply (simp add: new_Node_def)
    apply (auto simp: split_beta push_node_def)
    done
  have cl: "\<exists>n\<in>set (nodes (Firewall_initialize P s)). n_type n = ''client'' \<or> n_type n = ''attacker''"
    using assms(2)
    apply (simp add: Firewall_initialize_def Let_def for_upto_def)
    apply (rule for_loop_ends
        [where Q = "\<lambda>t. \<exists>n\<in>set (nodes t). n_type n = ''client'' \<or> n_type n = ''attacker''"])
     apply (rule assms(3))
    apply (simp add: split_beta push_node_def new_Node_def)
    done
  from v fw cl show ?thesis by (simp add: ready_iff)
qed

lemma ready_ARPSpoof:
  assumes "variant s = ARPSpoofAttack" "sc_nodes (scenario s) = Some count" "0 < count"
  shows "ready (ARPSpoof_initialize P s)"
proof -
  define body where "body = (\<lambda>count i s'.
                    let gridSize = \<lceil>Math_sqrt P count\<rceil>;
                        spacing = min (canvasWidth s') (canvasHeight s') * 0.7 / of_int gridSize;
                        offsetX = (canvasWidth s' - spacing * of_int gridSize) / 2;
                        offsetY = (canvasHeight s' - spacing * of_int gridSize) / 2;
                        row = \<lfloor>real i / of_int gridSize\<rfloor>;
                        col = int i mod gridSize;
                        x = offsetX + of_int col * spacing + spacing / 2;
                        y = offsetY + of_int row * spacing + spacing / 2
                    in push_node (new_Node P i (''node-'' @ string_of_nat i) ''client'' x y 20) s')"
  define t1 where "t1 = for_upto (sc_nodes (scenario s)) body s"
  define A where "A = new_Node P (length (nodes t1)) ''attacker'' ''attacker''
                       (canvasWidth t1 / 2) (canvasHeight t1 / 2) 25"
  define f :: "Node \<Rightarrow> Node" where "f = (\<lambda>node. if n_type node \<noteq> ''attacker''
                           then node\<lparr>n_connections := n_connections node @ [''attacker'']\<rparr>
                           else node)"
  have eq: "ARPSpoof_initialize P s = (push_node A t1)\<lparr>nodes := map f (nodes (push_node A t1))\<rparr>"
    unfolding ARPSpoof_initialize_def body_def t1_def A_def f_def Let_def ..
  have v: "variant (ARPSpoof_initialize P s) = ARPSpoofAttack"
    using ARPSpoof_initialize_built [of s P] assms(1) by (simp add: built_from_def)
  have "\<exists>n\<in>set (nodes t1). n_type n = ''client''"
    unfolding t1_def assms(2) for_upto_def option.case
    by (rule for_loop_ends [OF assms(3)]) (simp add: body_def Let_def push_node_def new_Node_def)
  then obtain c where c: "c \<in> set (nodes t1)" "n_type c = ''client''" by blast
  have keep: "n_id (f n) = n_id n" "n_type (f n) = n_type n" for n
    by (simp_all add: f_def)
  have "f c \<in> set (nodes (ARPSpoof_initialize P s))" "f A \<in> set (nodes (ARPSpoof_initialize P s))"
    using c by (simp_all add: eq push_node_def)
  moreover have "n_type (f c) = ''client''" "n_id (f A) = ''attacker''"
    using c by (simp_all add: keep A_def new_Node_def)
  ultimately show ?thesis
    unfolding ready_iff v by (intro disjI2) (simp only: Variant.case, blast)
qed

lemma SCENARIOS_get_cases:
  assumes "SCENARIOS_get name = Some sc"
  shows "(name = ''ddos'' \<and> sc_attackers sc = Some 30 \<and> sc_packetsPerSecond sc = Some 100) \<or>
         (name = ''mitm'' \<and> sc_packetsPerSecond sc = Some 20) \<or>
         (name = ''firewall'' \<and> sc_attackers sc = Some 10 \<and> sc_legitimateClients sc = Some 5) \<or>
         (name = ''arpSpoof'' \<and> sc_nodes sc = Some 8) \<or>
         (name \<in> set Object_prototype_properties \<and> class_of name = DDoSAttack \<and>
          sc = inherited_value)"
  using assms
  by (auto simp: SCENARIOS_get_def SCENARIOS_def class_of_def Object_prototype_properties_def
      split: if_splits)

lemma new_AttackSimulation_fields [simp]:
  "variant (new_AttackSimulation v sc r w h) = v"
  "scenario (new_AttackSimulation v sc r w h) = sc"
  "packets (new_AttackSimulation v sc r w h) = []"
  "timers (new_AttackSimulation v sc r w h) = []"
  "nodes (new_AttackSimulation v sc r w h) = []"
  "canvasWidth (new_AttackSimulation v sc r w h) = w"
  "canvasHeight (new_AttackSimulation v sc r w h) = h"
  "packetsReceived (metrics (new_AttackSimulation v sc r w h)) = 0"
  by (simp_all add: new_AttackSimulation_def)

lemma create_ready:
  assumes "SCENARIOS_get name = Some sc"
  shows "ready (initialize P (new_AttackSimulation (class_of name) sc r w h))"
  using SCENARIOS_get_cases [OF assms]
proof (elim disjE conjE)
  assume "name = ''ddos''" "sc_attackers sc = Some 30"
  then show ?thesis
    by (simp add: class_of_def initialize_def ready_DDoS [where count = 30])
next
  assume "name = ''mitm''"
  then show ?thesis by (simp add: class_of_def initialize_def ready_MITM)
next
  assume "name = ''firewall''" "sc_attackers sc = Some 10" "sc_legitimateClients sc = Some 5"
  then show ?thesis
    by (simp add: class_of_def initialize_def ready_Firewall [where tot = 15] opt_add_def)
next
  assume "name = ''arpSpoof''" "sc_nodes sc = Some 8"
  then show ?thesis
    by (simp add: class_of_def initialize_def ready_ARPSpoof [where count = 8])
next
  assume "sc = inherited_value"
  then show ?thesis
    by (simp add: ready_def initialize_fields inherited_value_def)
qed

lemma create_sound:
  assumes "SimulationFactory_create P name r w h = Inr s"
  shows "sound s"
proof -
  from assms obtain sc where sc: "SCENARIOS_get name = Some sc"
    and s: "s = initialize P (new_AttackSimulation (class_of name) sc r w h)"
    by (auto simp: SimulationFactory_create_def split: option.splits)
  show ?thesis
    unfolding s sound_def tidy_def
    by (simp add: create_ready [OF sc] initialize_fields)
qed

lemma run_from_factory:
  assumes "SimulationFactory_create P name r w h = Inr s"
  shows "\<exists>s'. run P es s = Inr s' \<and> sound s'"
  by (rule run_sound [OF create_sound [OF assms]])

section \<open>Ticks that generate nothing\<close>

lemma generatePackets_zero: "generatePackets P 0 s = Inr s"
  by (cases "variant s"; cases "sc_packetsPerSecond (scenario s)")
    (simp_all add: generatePackets_def DDoS_generatePackets_def MITM_generatePackets_def
      Firewall_generatePackets_def ARPSpoof_generatePackets_def packetsThisFrame_def
      for_upto_try_def Let_def for_loop_try.simps [of 0])

lemma filter_update_origin:
  "filter_update ps = Inr ps' \<Longrightarrow> p' \<in> set ps' \<Longrightarrow>
   \<exists>p\<in>set ps. p_progress p' = p_progress p + p_speed p * 0.01"
proof (induction ps arbitrary: ps')
  case Nil
  then show ?case by simp
next
  case (Cons p ps)
  from Cons.prems(1) obtain keep q rest where q: "Packet_update p = Inr (keep, q)"
    and rest: "filter_update ps = Inr rest"
    and ps': "ps' = (if keep then q # rest else rest)"
    by (auto split: sum.splits)
  show ?case
  proof (cases "p' \<in> set rest")
    case True
    with Cons.IH [OF rest] show ?thesis by auto
  next
    case False
    with Cons.prems(2) ps' have "keep" "p' = q" by (auto split: if_splits)
    with Packet_update_cases [OF q] show ?thesis by auto
  qed
qed

lemma filter_update_length: "filter_update ps = Inr ps' \<Longrightarrow> length ps' \<le> length ps"
proof (induction ps arbitrary: ps')
  case Nil
  then show ?case by simp
next
  case (Cons p ps)
  from Cons.prems obtain keep q rest where "filter_update ps = Inr rest"
    "ps' = (if keep then q # rest else rest)"
    by (auto split: sum.splits)
  with Cons.IH [of rest] show ?case by auto
qed

lemma drop_overloaded_length: "length (fst (drop_overloaded P ps r d)) = length ps"
  using drop_overloaded_progress [of P ps r d, THEN arg_cong, of length] by simp

lemma updateMetrics_length: "length (packets (updateMetrics P s)) = length (packets s)"
  using updateMetrics_progress [of P s, THEN arg_cong, of length] by simp

lemma updateMetrics_sent_blocked:
  "packetsSent (metrics (updateMetrics P s)) = packetsSent (metrics s) \<and>
   packetsBlocked (metrics (updateMetrics P s)) = packetsBlocked (metrics s)"
  by (cases "variant s")
    (simp_all add: updateMetrics_def DDoS_updateMetrics_def MITM_updateMetrics_def
      Firewall_updateMetrics_def ARPSpoof_updateMetrics_def count_received_def
      draw_range_def Let_def split_beta)

lemma updateMetrics_dropped:
  assumes "length (packets s) \<le> 40"
  shows "packetsDropped (metrics (updateMetrics P s)) = packetsDropped (metrics s)"
proof -
  have "activePackets s \<le> 40"
    unfolding activePackets_def by (rule order_trans [OF length_filter_le assms])
  then have "real (activePackets s) \<le> 40" by simp
  then have "\<not> 80 < min 100 (real (activePackets s) / 50 * 100)" by simp
  then show ?thesis
    by (cases "variant s")
      (simp_all add: updateMetrics_def DDoS_updateMetrics_def MITM_updateMetrics_def
        Firewall_updateMetrics_def ARPSpoof_updateMetrics_def count_received_def
        draw_range_def Let_def split_beta)
qed

text \<open>One tick at intensity 0 on a sound simulation.\<close>

lemma quiet_tick:
  assumes "sound s" "\<forall>p\<in>set (packets s). real k * 0.01 \<le> p_progress p"
  shows "\<exists>s'. update P dt sp 0 s = Inr s' \<and> sound s' \<and>
           (\<forall>p\<in>set (packets s'). real (Suc k) * 0.01 \<le> p_progress p) \<and>
           length (packets s') \<le> length (packets s) \<and>
           packetsSent (metrics s') = packetsSent (metrics s) \<and>
           packetsBlocked (metrics s') = packetsBlocked (metrics s) \<and>
           (length (packets s) \<le> 40 \<longrightarrow> packetsDropped (metrics s') = packetsDropped (metrics s))"
proof -
  from update_sound [OF assms(1)] obtain s' where s': "update P dt sp 0 s = Inr s'" "sound s'"
    by blast
  then obtain s1 where a: "advance_packets dt sp s = Inr s1" and u: "s' = updateMetrics P s1"
    by (auto simp: update_def and_then_Inr generatePackets_zero)
  from a obtain ps where ps: "filter_update (packets s) = Inr ps" "packets s1 = ps"
    "metrics s1 = metrics s"
    by (auto simp: advance_packets_def Let_def and_then_Inr)
  have speed: "1 \<le> p_speed p" if "p \<in> set (packets s)" for p
    using assms(1) that by (simp add: sound_def tidy_def list_all_iff packet_ok_def)
  have "real (Suc k) * 0.01 \<le> p_progress p'" if "p' \<in> set ps" for p'
  proof -
    from filter_update_origin [OF ps(1) that] obtain p where p: "p \<in> set (packets s)"
      "p_progress p' = p_progress p + p_speed p * 0.01" by blast
    have "real (Suc k) * 0.01 = real k * 0.01 + 0.01" by (simp add: algebra_simps)
    moreover from speed [OF p(1)] have "0.01 \<le> p_speed p * 0.01" by simp
    moreover from assms(2) p(1) have "real k * 0.01 \<le> p_progress p" by blast
    ultimately show ?thesis using p(2) by linarith
  qed
  then have "\<forall>x\<in>set (map p_progress (packets s1)). real (Suc k) * 0.01 \<le> x"
    by (simp add: ps(2))
  then have "\<forall>x\<in>set (map p_progress (packets s')). real (Suc k) * 0.01 \<le> x"
    by (simp only: u updateMetrics_progress)
  then have far: "\<forall>p\<in>set (packets s'). real (Suc k) * 0.01 \<le> p_progress p" by simp
  have len: "length (packets s1) \<le> length (packets s)"
    using filter_update_length [OF ps(1)] ps(2) by simp
  from len have "length (packets s) \<le> 40 \<Longrightarrow> length (packets s1) \<le> 40" by simp
  with s' far len show ?thesis
    by (simp add: u updateMetrics_length updateMetrics_sent_blocked updateMetrics_dropped ps(3))
qed

lemma quiet_ticks:
  assumes "sound s" "\<forall>p\<in>set (packets s). real k * 0.01 \<le> p_progress p"
  shows "\<exists>s'. run P (replicate n (Update dt sp 0)) s = Inr s' \<and> sound s' \<and>
           (\<forall>p\<in>set (packets s'). real (k + n) * 0.01 \<le> p_progress p) \<and>
           length (packets s') \<le> length (packets s) \<and>
           packetsSent (metrics s') = packetsSent (metrics s) \<and>
           packetsBlocked (metrics s') = packetsBlocked (metrics s) \<and>
           (length (packets s) \<le> 40 \<longrightarrow> packetsDropped (metrics s') = packetsDropped (metrics s))"
  using assms
proof (induction n arbitrary: s k)
  case 0
  then show ?case by simp
next
  case (Suc n)
  from quiet_tick [OF Suc.prems, of P dt sp] obtain s1 where
    s1: "update P dt sp 0 s = Inr s1" "sound s1"
      "\<forall>p\<in>set (packets s1). real (Suc k) * 0.01 \<le> p_progress p"
      "length (packets s1) \<le> length (packets s)"
      "packetsSent (metrics s1) = packetsSent (metrics s)"
      "packetsBlocked (metrics s1) = packetsBlocked (metrics s)"
      "length (packets s) \<le> 40 \<longrightarrow> packetsDropped (metrics s1) = packetsDropped (metrics s)"
    by blast
  from Suc.IH [OF s1(2,3)] obtain s' where
    s': "run P (replicate n (Update dt sp 0)) s1 = Inr s'" "sound s'"
      "\<forall>p\<in>set (packets s'). real (Suc k + n) * 0.01 \<le> p_progress p"
      "length (packets s') \<le> length (packets s1)"
      "packetsSent (metrics s') = packetsSent (metrics s1)"
      "packetsBlocked (metrics s') = packetsBlocked (metrics s1)"
      "length (packets s1) \<le> 40 \<longrightarrow> packetsDropped (metrics s') = packetsDropped (metrics s1)"
    by blast
  from s1 s' show ?case by (simp add: and_then_def)
qed

lemma drained:
  assumes "sound s"
  shows "\<exists>s'. run P (replicate 100 (Update dt sp 0)) s = Inr s' \<and> sound s' \<and>
           packets s' = [] \<and>
           packetsSent (metrics s') = packetsSent (metrics s) \<and>
           packetsBlocked (metrics s') = packetsBlocked (metrics s) \<and>
           (length (packets s) \<le> 40 \<longrightarrow> packetsDropped (metrics s') = packetsDropped (metrics s))"
proof -
  from assms have "\<forall>p\<in>set (packets s). real 0 * 0.01 \<le> p_progress p"
    by (simp add: sound_def tidy_def list_all_iff packet_ok_def)
  from quiet_ticks [OF assms this, of P 100 dt sp] obtain s' where
    s': "run P (replicate 100 (Update dt sp 0)) s = Inr s'" "sound s'"
      "\<forall>p\<in>set (packets s'). real (0 + 100) * 0.01 \<le> p_progress p"
      "packetsSent (metrics s') = packetsSent (metrics s)"
      "packetsBlocked (metrics s') = packetsBlocked (metrics s)"
      "length (packets s) \<le> 40 \<longrightarrow> packetsDropped (metrics s') = packetsDropped (metrics s)"
    by blast
  have "packets s' = []"
  proof (rule ccontr)
    assume "packets s' \<noteq> []"
    then obtain p where p: "p \<in> set (packets s')" by (meson last_in_set)
    with s'(2) have "p_progress p < 1" by (simp add: sound_def tidy_def list_all_iff packet_ok_def)
    moreover from s'(3) p have "1 \<le> p_progress p" by auto
    ultimately show False by simp
  qed
  with s' show ?thesis by blast
qed

lemma mitm_start_created:
  "SimulationFactory_create low_platform ''mitm'' (new_SeededRandom 42) 800 600 = Inr mitm_start"
  by (simp add: SimulationFactory_create_def SCENARIOS_get_def SCENARIOS_def class_of_def
      mitm_start_def)

lemma ddos_start_created:
  "SimulationFactory_create low_platform ''ddos'' (new_SeededRandom 42) 800 600 = Inr ddos_start"
  by (simp add: SimulationFactory_create_def SCENARIOS_get_def SCENARIOS_def class_of_def
      ddos_start_def)

text \<open>
  C2. Conservation fails. From any state that a simulation made by the factory reaches,
  100 calls of \<open>update\<close> at intensity 0 empty the live collection, and no packet is ever
  counted as received: \<open>packetsReceived\<close> is 0 throughout. \<open>packetsSent\<close> and
  \<open>packetsBlocked\<close> stay as they were, and so does \<open>packetsDropped\<close> when at most 40
  packets were live. Every packet that arrives leaves the collection uncounted.
\<close>

theorem arrivals_are_never_counted:
  assumes "SimulationFactory_create P name r w h = Inr s0" and "run P es s0 = Inr s"
  shows "packetsReceived (metrics s) = 0 \<and>
         (\<exists>s'. run P (replicate 100 (Update dt sp 0)) s = Inr s' \<and>
            packets s' = [] \<and> packetsReceived (metrics s') = 0 \<and>
            packetsSent (metrics s') = packetsSent (metrics s) \<and>
            packetsBlocked (metrics s') = packetsBlocked (metrics s) \<and>
            (length (packets s) \<le> 40 \<longrightarrow>
               packetsDropped (metrics s') = packetsDropped (metrics s)))"
proof -
  from run_from_factory [OF assms(1), of es] assms(2) have s: "sound s" by simp
  from drained [OF s, of P dt sp] obtain s' where
    "run P (replicate 100 (Update dt sp 0)) s = Inr s'" "sound s'" "packets s' = []"
    "packetsSent (metrics s') = packetsSent (metrics s)"
    "packetsBlocked (metrics s') = packetsBlocked (metrics s)"
    "length (packets s) \<le> 40 \<longrightarrow> packetsDropped (metrics s') = packetsDropped (metrics s)"
    by blast
  with s show ?thesis by (auto simp: sound_def)
qed

theorem arrivals_are_never_counted_witness:
  "case run low_platform (Update 16 1 50 # replicate 100 (Update 16 1 0)) ddos_start of
     Inl e \<Rightarrow> False
   | Inr s' \<Rightarrow> packets s' = [] \<and> packetsSent (metrics s') = 1 \<and>
       packetsReceived (metrics s') = 0 \<and> packetsDropped (metrics s') = 0 \<and>
       packetsBlocked (metrics s') = 0"
proof -
  have first: "case run low_platform [Update 16 1 50] ddos_start of
      Inl e \<Rightarrow> False
    | Inr t \<Rightarrow> packetsSent (metrics t) = 1 \<and> packetsDropped (metrics t) = 0 \<and>
        packetsBlocked (metrics t) = 0 \<and> length (packets t) = 1"
    by code_simp
  then obtain s where r: "run low_platform [Update 16 1 50] ddos_start = Inr s"
    by (cases "run low_platform [Update 16 1 50] ddos_start") auto
  with first have s: "packetsSent (metrics s) = 1" "packetsDropped (metrics s) = 0"
    "packetsBlocked (metrics s) = 0" "length (packets s) = 1"
    by simp_all
  from arrivals_are_never_counted [OF ddos_start_created r, of 16 1] s obtain s' where
    "run low_platform (replicate 100 (Update 16 1 0)) s = Inr s'" "packets s' = []"
    "packetsReceived (metrics s') = 0" "packetsSent (metrics s') = 1"
    "packetsBlocked (metrics s') = 0" "packetsDropped (metrics s') = 0"
    by auto
  moreover from r have "step low_platform (Update 16 1 50) ddos_start = Inr s"
    by (simp add: and_then_Inr)
  ultimately show ?thesis by (simp add: and_then_def)
qed


text \<open>
  C6 (what the code does). \<open>'constructor'\<close> is not the name of a scenario, yet the factory
  neither logs nor returns \<open>null\<close>: \<open>SCENARIOS['constructor']\<close> is the inherited
  \<open>Object\<close> function, which passes the test, and the \<open>default\<close> branch of the \<open>switch\<close>
  builds a \<open>DDoSAttack\<close> whose \<open>initialize()\<close> places the server alone.
\<close>

theorem create_inherited_name:
  "SimulationFactory_create P ''constructor'' r 800 600 =
     Inr ((new_AttackSimulation DDoSAttack inherited_value r 800 600)
            \<lparr>nodes := [new_Node P 0 ''server'' ''server'' 400 300 40]\<rparr>)"
  by (simp add: SimulationFactory_create_def SCENARIOS_get_def SCENARIOS_def class_of_def
      Object_prototype_properties_def initialize_def DDoS_initialize_def Let_def
      inherited_value_def for_upto_def push_node_def new_AttackSimulation_def)

text \<open>
  The rest of C6 holds: each of the four scenario names gives the instance of its class,
  on which \<open>initialize()\<close> has run once, and a name that is neither a scenario nor a
  property of \<open>Object.prototype\<close> gives the failure.
\<close>

lemma create_recognised:
  "name \<in> {''ddos'', ''mitm'', ''firewall'', ''arpSpoof''} \<Longrightarrow>
   \<exists>sc. map_of SCENARIOS name = Some sc \<and>
        SimulationFactory_create P name r w h =
          Inr (initialize P (new_AttackSimulation (class_of name) sc r w h))"
  by (auto simp: SimulationFactory_create_def SCENARIOS_get_def SCENARIOS_def)

lemma class_of_recognised:
  "class_of ''ddos'' = DDoSAttack" "class_of ''mitm'' = MITMAttack"
  "class_of ''firewall'' = FirewallAttack" "class_of ''arpSpoof'' = ARPSpoofAttack"
  by (simp_all add: class_of_def)

lemma create_unknown:
  "name \<notin> {''ddos'', ''mitm'', ''firewall'', ''arpSpoof''} \<Longrightarrow>
   name \<notin> set Object_prototype_properties \<Longrightarrow>
   SimulationFactory_create P name r w h = Inl UnknownScenario"
  by (simp add: SimulationFactory_create_def SCENARIOS_get_def SCENARIOS_def)

lemma star_shape:
  assumes "n_type srv = ''server''" "n_id srv = ''server''"
    and "\<And>i. n_type (att i) = ''attacker''"
    and "\<And>i. ''server'' \<in> set (n_connections (att i))"
  shows "map n_id (filter (\<lambda>n. n_type n = ''server'') (srv # map att xs)) = [''server''] \<and>
         length (filter (\<lambda>n. n_type n = ''attacker'') (srv # map att xs)) = length xs \<and>
         list_all (\<lambda>n. ''server'' \<in> set (n_connections n))
           (filter (\<lambda>n. n_type n = ''attacker'') (srv # map att xs))"
  by (induction xs) (simp_all add: assms)

text \<open>
  C7. \<open>SimulationFactory.create('ddos', rng, 800, 600)\<close> returns a simulation with 31
  nodes: one of type \<open>server\<close>, with id \<open>server\<close>, and 30 of type \<open>attacker\<close>, each with
  \<open>'server'\<close> among its connections.
\<close>

theorem ddos_topology:
  "\<exists>s. SimulationFactory_create P ''ddos'' r 800 600 = Inr s \<and>
       length (nodes s) = 31 \<and>
       map n_id (filter (\<lambda>n. n_type n = ''server'') (nodes s)) = [''server''] \<and>
       length (filter (\<lambda>n. n_type n = ''attacker'') (nodes s)) = 30 \<and>
       list_all (\<lambda>n. ''server'' \<in> set (n_connections n))
         (filter (\<lambda>n. n_type n = ''attacker'') (nodes s))"
proof -
  let ?sc = "\<lparr>sc_attackers = Some 30, sc_legitimateClients = None, sc_nodes = None,
              sc_packetsPerSecond = Some 100, sc_blockRate = None\<rparr>"
  let ?s0 = "new_AttackSimulation DDoSAttack ?sc r 800 600"
  define xs where "xs = [0 ..< nat \<lceil>30 :: real\<rceil>]"
  have len: "length xs = 30" by (simp add: xs_def)
  have c: "SimulationFactory_create P ''ddos'' r 800 600 = Inr (DDoS_initialize P ?s0)"
    by (simp add: SimulationFactory_create_def SCENARIOS_get_def SCENARIOS_def class_of_def
        initialize_def)
  have "sc_attackers (scenario ?s0) = Some 30" by simp
  then have "\<exists>srv att.
      nodes (DDoS_initialize P ?s0) = srv # map att xs \<and>
      n_type srv = ''server'' \<and> n_id srv = ''server'' \<and>
      (\<forall>i. n_type (att i) = ''attacker'') \<and> (\<forall>i. ''server'' \<in> set (n_connections (att i)))"
    unfolding xs_def
    apply (subst DDoS_initialize_nodes [where count = 30])
     apply assumption
    apply (simp only: new_AttackSimulation_fields append_Nil)
    apply (intro exI conjI)
        apply (rule refl)
       apply (simp_all add: new_Node_def)
    done
  then obtain srv att where nodes: "nodes (DDoS_initialize P ?s0) = srv # map att xs"
    and srv: "n_type srv = ''server''" "n_id srv = ''server''"
    and att: "\<And>i. n_type (att i) = ''attacker''" "\<And>i. ''server'' \<in> set (n_connections (att i))"
    by blast
  have sh: "map n_id (filter (\<lambda>n. n_type n = ''server'') (srv # map att xs)) = [''server''] \<and>
        length (filter (\<lambda>n. n_type n = ''attacker'') (srv # map att xs)) = length xs \<and>
        list_all (\<lambda>n. ''server'' \<in> set (n_connections n))
          (filter (\<lambda>n. n_type n = ''attacker'') (srv # map att xs))"
    by (rule star_shape) (rule srv att)+
  show ?thesis
  proof (intro exI conjI)
    show "SimulationFactory_create P ''ddos'' r 800 600 = Inr (DDoS_initialize P ?s0)"
      by (rule c)
    show "length (nodes (DDoS_initialize P ?s0)) = 31"
      unfolding nodes by (simp add: len)
    show "map n_id (filter (\<lambda>n. n_type n = ''server'') (nodes (DDoS_initialize P ?s0))) = [''server'']"
      unfolding nodes by (rule sh [THEN conjunct1])
    show "length (filter (\<lambda>n. n_type n = ''attacker'') (nodes (DDoS_initialize P ?s0))) = 30"
      unfolding nodes using sh [THEN conjunct2, THEN conjunct1] by (simp only: len)
    show "list_all (\<lambda>n. ''server'' \<in> set (n_connections n))
         (filter (\<lambda>n. n_type n = ''attacker'') (nodes (DDoS_initialize P ?s0)))"
      unfolding nodes by (rule sh [THEN conjunct2, THEN conjunct2])
  qed
qed


text \<open>
  C8. For every packet of the live collection of a simulation made by the factory, after
  any sequence of events: its progress is in \<open>[0, 1)\<close> and \<open>update()\<close> does not raise.
  While the packet is active, \<open>update()\<close> strictly increases its progress; the packet
  stays active exactly when the new progress is below 1, and otherwise it is inactive
  and \<open>update()\<close> returns \<open>false\<close>, so that the filter pass removes it. On an inactive
  packet \<open>update()\<close> changes nothing and returns \<open>false\<close>.
\<close>

theorem packet_progress:
  assumes "SimulationFactory_create P name r w h = Inr s0" and "run P es s0 = Inr s"
    and "p \<in> set (packets s)"
  shows "0 \<le> p_progress p \<and> p_progress p < 1 \<and>
         (\<exists>keep p'. Packet_update p = Inr (keep, p') \<and>
            (p_active p \<longrightarrow> p_progress p < p_progress p' \<and>
               p_active p' = (p_progress p' < 1) \<and> keep = p_active p') \<and>
            (\<not> p_active p \<longrightarrow> p' = p \<and> \<not> keep))"
proof -
  from run_from_factory [OF assms(1), of es] assms(2) have "sound s" by simp
  with assms(3) have ok: "packet_ok p" by (simp add: sound_def tidy_def list_all_iff)
  from Packet_update_ok [OF ok] obtain keep p' where u: "Packet_update p = Inr (keep, p')"
    by blast
  from ok have "0 < p_speed p * 0.01" by (simp add: packet_ok_def)
  with Packet_update_cases [OF u] ok u show ?thesis
    by (auto simp: packet_ok_def)
qed

theorem packet_progress_witness:
  "case run low_platform [Update 16 1 50] mitm_start of
     Inl e \<Rightarrow> False
   | Inr s \<Rightarrow>
       (case packets s of
          [] \<Rightarrow> False
        | p # ps \<Rightarrow>
            (case Packet_update p of
               Inl e \<Rightarrow> False
             | Inr (keep, p') \<Rightarrow>
                 p_active p \<and> 0 \<le> p_progress p \<and> p_progress p < p_progress p' \<and>
                 p_progress p' < 1 \<and> p_active p' \<and> keep))"
proof -
  have first: "case run low_platform [Update 16 1 50] mitm_start of
      Inl e \<Rightarrow> False
    | Inr s \<Rightarrow> (case packets s of [] \<Rightarrow> False
               | p # ps \<Rightarrow> p_active p \<and>
                   (case Packet_update p of Inl e \<Rightarrow> False | Inr (keep, p') \<Rightarrow> keep))"
    by code_simp
  then obtain s where r: "run low_platform [Update 16 1 50] mitm_start = Inr s"
    by (cases "run low_platform [Update 16 1 50] mitm_start") auto
  with first obtain p ps where p: "packets s = p # ps" "p_active p"
    "case Packet_update p of Inl e \<Rightarrow> False | Inr (keep, p') \<Rightarrow> keep"
    by (cases "packets s") auto
  then have "p \<in> set (packets s)" by simp
  from packet_progress [OF mitm_start_created r this] p r show ?thesis
    by auto
qed

text \<open>
  C10. In every scenario, and from any state: the filter pass of \<open>update\<close> leaves only
  active packets with progress below 1 in the live collection, so the collection that
  \<open>generatePackets\<close> and then \<open>updateMetrics\<close> receive holds no packet with progress 1 or
  more, and neither does the collection when \<open>update\<close> returns.
\<close>

theorem update_keeps_no_arrived_packet:
  assumes "update P deltaTime speed intensity s = Inr s'"
  shows "\<exists>s1 s2. advance_packets deltaTime speed s = Inr s1 \<and>
           generatePackets P intensity s1 = Inr s2 \<and> s' = updateMetrics P s2 \<and>
           (\<forall>p\<in>set (packets s1). p_active p \<and> p_progress p < 1) \<and>
           (\<forall>p\<in>set (packets s2). p_progress p < 1) \<and>
           (\<forall>p\<in>set (packets s'). p_progress p < 1)"
proof -
  from assms obtain s1 s2 where a: "advance_packets deltaTime speed s = Inr s1"
    and g: "generatePackets P intensity s1 = Inr s2" and u: "s' = updateMetrics P s2"
    by (auto simp: update_def and_then_Inr)
  from a have 1: "\<forall>p\<in>set (packets s1). p_active p \<and> p_progress p < 1"
    by (blast dest: advance_packets_kept)
  then have "\<forall>p\<in>set (packets s1). p_progress p < 1" by blast
  with generatePackets_grows [OF g] have 2: "\<forall>p\<in>set (packets s2). p_progress p < 1"
    by (rule grows_below_one)
  from update_below_one [OF assms] have 3: "\<forall>p\<in>set (packets s'). p_progress p < 1" .
  from a g u 1 2 3 show ?thesis by blast
qed

theorem update_keeps_no_arrived_packet_witness:
  "case update low_platform 16 1 50 (arriving mitm_start) of
     Inl e \<Rightarrow> False
   | Inr s' \<Rightarrow> packets (arriving mitm_start) \<noteq> [] \<and>
       list_all (\<lambda>p. p_progress p = 0.99) (packets (arriving mitm_start)) \<and>
       list_all (\<lambda>p. p_progress p < 1) (packets s') \<and> length (packets s') = 1"
proof -
  have first: "case update low_platform 16 1 50 (arriving mitm_start) of
      Inl e \<Rightarrow> False | Inr s' \<Rightarrow> packets (arriving mitm_start) \<noteq> [] \<and>
       list_all (\<lambda>p. p_progress p = 0.99) (packets (arriving mitm_start)) \<and>
       length (packets s') = 1"
    by code_simp
  then obtain s' where r: "update low_platform 16 1 50 (arriving mitm_start) = Inr s'"
    by (cases "update low_platform 16 1 50 (arriving mitm_start)") auto
  from update_keeps_no_arrived_packet [OF r] first r show ?thesis
    by (auto simp: list_all_iff)
qed


text \<open>
  C3. Across any sequence of calls of \<open>update\<close> and runs of scheduled callbacks, from any
  state of a simulation, \<open>packetsSent\<close>, \<open>packetsReceived\<close>, \<open>packetsDropped\<close> and
  \<open>packetsBlocked\<close> do not decrease.
\<close>

theorem counters_never_decrease:
  assumes "run P es s = Inr s'"
  shows "counters_le s s'"
  using assms
proof (induction es arbitrary: s)
  case Nil
  then show ?case by (simp add: counters_le_refl)
next
  case (Cons e es)
  from Cons.prems obtain s1 where "step P e s = Inr s1" "run P es s1 = Inr s'"
    by (auto simp: and_then_Inr)
  with Cons.IH show ?case by (blast intro: counters_le_trans step_counters)
qed

theorem counters_never_decrease_witness:
  "case run low_platform [Update 16 1 50, TimerFires, Update 16 1 50] mitm_start of
     Inl e \<Rightarrow> False
   | Inr s' \<Rightarrow> counters_le mitm_start s' \<and> packetsSent (metrics s') = 3"
proof -
  have "\<not> isl (run low_platform [Update 16 1 50, TimerFires, Update 16 1 50] mitm_start)"
    by code_simp
  then obtain s' where r: "run low_platform [Update 16 1 50, TimerFires, Update 16 1 50] mitm_start = Inr s'"
    by (cases "run low_platform [Update 16 1 50, TimerFires, Update 16 1 50] mitm_start") auto
  have "packetsSent (metrics (projr (run low_platform [Update 16 1 50, TimerFires, Update 16 1 50] mitm_start))) = 3"
    by code_simp
  with counters_never_decrease [OF r] r show ?thesis by simp
qed

end
